theory Spec2Isabelle
  imports Complex_Main "HOL-Library.Word" "HOL-Library.Multiset"
begin

section \<open>The to-do list of src/app.js\<close>

text \<open>
  The program is one JavaScript module: a global task array, a filter and a sort mode,
  hydrated from \<open>localStorage\<close>, mutated by add / remove / toggle / clear, written back
  after every mutation and rendered after every mutation. The embedding keeps the module's
  variables in one state record and every function of the module as a function on it.
\<close>

subsection \<open>Strings\<close>

text \<open>
  A JavaScript string is a sequence of UTF-16 code units. \<open>str\<close> writes an ASCII literal.
\<close>

type_synonym jschar = "16 word"
type_synonym jsstring = "jschar list"

definition str :: "string \<Rightarrow> jsstring" where
  "str s = map (\<lambda>c. of_nat (of_char c)) s"

text \<open>
  \<open>String.prototype.trim\<close> removes WhiteSpace and LineTerminator code points from both
  ends (ECMA-262, TrimString): TAB, LF, VT, FF, CR, SP, NBSP, U+1680, U+2000..U+200A,
  U+2028, U+2029, U+202F, U+205F, U+3000 and U+FEFF. All of them are single code units.
\<close>

definition isWhiteSpace :: "jschar \<Rightarrow> bool" where
  "isWhiteSpace c = (c \<in> set [0x09, 0x0A, 0x0B, 0x0C, 0x0D, 0x20, 0xA0, 0x1680,
     0x2000, 0x2001, 0x2002, 0x2003, 0x2004, 0x2005, 0x2006, 0x2007, 0x2008, 0x2009, 0x200A,
     0x2028, 0x2029, 0x202F, 0x205F, 0x3000, 0xFEFF])"

definition trim :: "jsstring \<Rightarrow> jsstring" where
  "trim s = rev (dropWhile isWhiteSpace (rev (dropWhile isWhiteSpace s)))"

text \<open>
  \<open>s.split(",")\<close> with a one-code-unit separator: the pieces between the separators,
  \<open>"".split(",")\<close> being \<open>[""]\<close>.
\<close>

fun String_split :: "jschar \<Rightarrow> jsstring \<Rightarrow> jsstring list" where
  "String_split c [] = [[]]"
| "String_split c (x # xs) =
     (if x = c then [] # String_split c xs
      else (case String_split c xs of
              [] \<Rightarrow> [[x]]
            | p # ps \<Rightarrow> (x # p) # ps))"

text \<open>
  A template literal \<open>${n}\<close> on an array length: the decimal digits of a natural number.
\<close>

fun digits :: "nat \<Rightarrow> string" where
  "digits n =
     (if n < 10 then [''0123456789'' ! n]
      else digits (n div 10) @ [''0123456789'' ! (n mod 10)])"

declare digits.simps [simp del]

definition nat_to_string :: "nat \<Rightarrow> jsstring" where
  "nat_to_string n = str (digits n)"

subsection \<open>Numbers\<close>

text \<open>
  A JavaScript number is an IEEE double. \<open>Num x\<close> stands for the finite double of value
  \<open>x\<close> (\<open>-0\<close> and \<open>+0\<close> are both \<open>Num 0\<close>: \<open>===\<close> does not tell them apart); the other
  three constructors are the non-finite doubles. The program subtracts two numbers only to
  hand the difference to \<open>Array.prototype.sort\<close>, which reads its sign; the sign of the
  rounded difference of two finite doubles is the sign of the exact difference.
\<close>

datatype jsnum = Num rat | NaN | Infinity | NegInfinity

fun js_minus :: "jsnum \<Rightarrow> jsnum \<Rightarrow> jsnum" where
  "js_minus NaN b = NaN"
| "js_minus a NaN = NaN"
| "js_minus (Num a) (Num b) = Num (a - b)"
| "js_minus (Num a) Infinity = NegInfinity"
| "js_minus (Num a) NegInfinity = Infinity"
| "js_minus Infinity Infinity = NaN"
| "js_minus Infinity b = Infinity"
| "js_minus NegInfinity NegInfinity = NaN"
| "js_minus NegInfinity b = NegInfinity"

text \<open>
  What \<open>sort\<close> makes of a comparator's result (SortCompare): \<open>NaN\<close> counts as \<open>+0\<close>,
  and only the sign is read.
\<close>

fun SortCompare_sign :: "jsnum \<Rightarrow> int" where
  "SortCompare_sign NaN = 0"
| "SortCompare_sign (Num x) = (if x < 0 then -1 else if x = 0 then 0 else 1)"
| "SortCompare_sign Infinity = 1"
| "SortCompare_sign NegInfinity = -1"

subsection \<open>Values decoded from JSON, and their coercions\<close>

text \<open>
  The values \<open>JSON.parse\<close> builds. An object is the list of its own properties, in the
  order of their creation; \<open>JSON.parse\<close> keeps one property for each key.
\<close>

datatype json =
    JNull
  | JBool bool
  | JNum jsnum
  | JStr jsstring
  | JArr "json list"
  | JObj "(jsstring \<times> json) list"

datatype error = TypeError | SyntaxError | StorageError

text \<open>
  The parts of the host that are tables or locale data rather than code of this module are
  parameters: Unicode lower-casing, the locale's collation, and the conversions between
  numbers and their decimal text.
\<close>

record platform =
  toLowerCase :: "jsstring \<Rightarrow> jsstring"
  localeCompare :: "jsstring \<Rightarrow> jsstring \<Rightarrow> int"
  Number_toString :: "jsnum \<Rightarrow> jsstring"
  StringToNumber :: "jsstring \<Rightarrow> jsnum"

text \<open>
  \<open>String(v)\<close> on a value that \<open>JSON.parse\<close> built. An array joins its elements with
  commas, \<open>null\<close> elements as the empty string. A plain object answers
  \<open>"[object Object]"\<close> through \<open>Object.prototype.toString\<close>, unless it has an own property
  \<open>toString\<close>: that is a JSON value, so not callable, \<open>valueOf\<close> returns no primitive
  either, and the conversion throws a TypeError.
\<close>

fun ToString :: "platform \<Rightarrow> json \<Rightarrow> error + jsstring"
and Array_join :: "platform \<Rightarrow> json list \<Rightarrow> error + jsstring" where
  "ToString P JNull = Inr (str ''null'')"
| "ToString P (JBool b) = Inr (if b then str ''true'' else str ''false'')"
| "ToString P (JNum n) = Inr (Number_toString P n)"
| "ToString P (JStr s) = Inr s"
| "ToString P (JArr vs) = Array_join P vs"
| "ToString P (JObj kvs) =
     (if map_of kvs (str ''toString'') = None then Inr (str ''[object Object]'')
      else Inl TypeError)"
| "Array_join P [] = Inr []"
| "Array_join P (v # vs) =
     (case (if v = JNull then Inr [] else ToString P v) of
        Inl e \<Rightarrow> Inl e
      | Inr s \<Rightarrow>
          (if vs = [] then Inr s
           else (case Array_join P vs of
                   Inl e \<Rightarrow> Inl e
                 | Inr r \<Rightarrow> Inr (s @ str '','' @ r))))"

text \<open>\<open>Number(v)\<close>: arrays and objects go through their string form.\<close>

fun ToNumber :: "platform \<Rightarrow> json \<Rightarrow> error + jsnum" where
  "ToNumber P JNull = Inr (Num 0)"
| "ToNumber P (JBool b) = Inr (if b then Num 1 else Num 0)"
| "ToNumber P (JNum n) = Inr n"
| "ToNumber P (JStr s) = Inr (StringToNumber P s)"
| "ToNumber P v =
     (case ToString P v of
        Inl e \<Rightarrow> Inl e
      | Inr s \<Rightarrow> Inr (StringToNumber P s))"

text \<open>\<open>Boolean(v)\<close>, \<open>undefined\<close> being \<open>None\<close>.\<close>

fun ToBoolean :: "json option \<Rightarrow> bool" where
  "ToBoolean None = False"
| "ToBoolean (Some JNull) = False"
| "ToBoolean (Some (JBool b)) = b"
| "ToBoolean (Some (JNum n)) = (n \<noteq> Num 0 \<and> n \<noteq> NaN)"
| "ToBoolean (Some (JStr s)) = (s \<noteq> [])"
| "ToBoolean (Some (JArr vs)) = True"
| "ToBoolean (Some (JObj kvs)) = True"

text \<open>
  \<open>t.name\<close> for the five names the module reads (\<open>id\<close>, \<open>title\<close>, \<open>completed\<close>,
  \<open>createdAt\<close>, \<open>tags\<close>), none of which any built-in prototype defines: reading off
  \<open>null\<close> throws, an object answers its own property, every other value \<open>undefined\<close>.
\<close>

fun Get :: "json \<Rightarrow> jsstring \<Rightarrow> error + json option" where
  "Get JNull name = Inl TypeError"
| "Get (JObj kvs) name = Inr (map_of kvs name)"
| "Get v name = Inr None"

text \<open>The test of \<open>??\<close>: the left operand is \<open>undefined\<close> or \<open>null\<close>.\<close>

definition nullish :: "json option \<Rightarrow> bool" where
  "nullish v = (v = None \<or> v = Some JNull)"

subsection \<open>Tasks, the store and the page\<close>

text \<open>
  The \<open>Task\<close> of the module's typedef. The field \<open>id\<close> is \<open>id_t\<close> here.
\<close>

record task =
  id_t :: jsstring
  title :: jsstring
  completed :: bool
  createdAt :: jsnum
  tags :: "jsstring list"

text \<open>
  The program looks at the string under \<open>STORAGE_KEY\<close> in two ways only: whether it is
  empty (\<open>!raw\<close>) and what \<open>JSON.parse\<close> makes of it. A stored string is therefore kept
  as one of three things: the empty string, a non-empty string that \<open>JSON.parse\<close> rejects,
  or a JSON text, given by the value it decodes to. \<open>JSON.stringify\<close> writes a text that
  decodes to the JSON image of its argument (ECMA-262: strings and finite numbers come back
  as they were, a non-finite number is written as \<open>null\<close>).
\<close>

datatype stored = EmptyString | Malformed | Encoded json

fun JSON_parse :: "stored \<Rightarrow> error + json" where
  "JSON_parse EmptyString = Inl SyntaxError"
| "JSON_parse Malformed = Inl SyntaxError"
| "JSON_parse (Encoded v) = Inr v"

definition task_json :: "task \<Rightarrow> json" where
  "task_json t = JObj
     [(str ''id'', JStr (id_t t)),
      (str ''title'', JStr (title t)),
      (str ''completed'', JBool (completed t)),
      (str ''createdAt'', (case createdAt t of Num x \<Rightarrow> JNum (Num x) | _ \<Rightarrow> JNull)),
      (str ''tags'', JArr (map JStr (tags t)))]"

definition JSON_stringify :: "task list \<Rightarrow> stored" where
  "JSON_stringify ts = Encoded (JArr (map task_json ts))"

text \<open>
  \<open>window.localStorage\<close>: the item under \<open>STORAGE_KEY\<close>; whether the page may use
  the store at all (where it may not, every access throws); whether the store takes a write
  (where the quota is used up, \<open>setItem\<close> throws and reads still work); and how many
  times \<open>setItem\<close> was called.
\<close>

record storage =
  item :: "stored option"
  accessible :: bool
  writable :: bool
  setItem_calls :: nat

definition getItem :: "storage \<Rightarrow> error + stored option" where
  "getItem st = (if accessible st then Inr (item st) else Inl StorageError)"

definition setItem :: "stored \<Rightarrow> storage \<Rightarrow> error option \<times> storage" where
  "setItem v st =
     (let st' = st\<lparr>setItem_calls := Suc (setItem_calls st)\<rparr>
      in if accessible st' \<and> writable st' then (None, st'\<lparr>item := Some v\<rparr>)
         else (Some StorageError, st'))"

text \<open>
  What the module does not compute itself: \<open>crypto.randomUUID\<close> (absent on some hosts,
  hence the \<open>?.\<close>), \<open>Date.now\<close> and \<open>Math.random\<close>. Each is a sequence of answers; the
  state counts the calls made so far.
\<close>

record env =
  randomUUID :: "(nat \<Rightarrow> jsstring) option"
  Date_now :: "nat \<Rightarrow> int"
  Math_random :: "nat \<Rightarrow> rat"

datatype sort_mode = ByCreatedAt | ByTag

text \<open>
  The page, as far as the module writes it: the children of the list element (the empty
  state with its message, or one item per task, each item standing for the task
  \<open>createTaskElement\<close> built it from), the count line, the disabled flag of the clear
  button and the tag filter banner.
\<close>

datatype list_view = EmptyState jsstring | TaskItems "task list"

record dom =
  task_list :: list_view
  task_count :: jsstring
  clearCompleted_disabled :: bool
  tagFilterStatus_hidden :: bool
  tagFilterName :: jsstring

text \<open>
  Arrays are objects: \<open>push\<close> and \<open>sort\<close> change an array in place, and two variables can
  hold the same array. The heap maps addresses to the arrays of tasks; \<open>tasks\<close> is the
  address the module's variable holds. Task objects are never changed in place, so they are
  values.
\<close>

type_synonym addr = nat

record state =
  heap :: "addr \<Rightarrow> task list"
  next_addr :: addr
  tasks :: addr
  sortMode :: sort_mode
  activeTagFilter :: "jsstring option"
  activeTagLabel :: jsstring
  storage :: storage
  elements :: dom
  env :: env
  tick :: nat

definition alloc :: "task list \<Rightarrow> state \<Rightarrow> addr \<times> state" where
  "alloc xs s =
     (next_addr s, s\<lparr>heap := (heap s)(next_addr s := xs), next_addr := Suc (next_addr s)\<rparr>)"

definition the_tasks :: "state \<Rightarrow> task list" where
  "the_tasks s = heap s (tasks s)"

text \<open>\<open>tasks = xs\<close> for a newly built array \<open>xs\<close>.\<close>

definition assign_tasks :: "task list \<Rightarrow> state \<Rightarrow> state" where
  "assign_tasks xs s = (case alloc xs s of (r, s') \<Rightarrow> s'\<lparr>tasks := r\<rparr>)"

text \<open>
  The module's top-level declarations (lines 15 and 30 to 32), on a given store, page and
  host.
\<close>

definition initial_state :: "storage \<Rightarrow> dom \<Rightarrow> env \<Rightarrow> state" where
  "initial_state st d e =
     \<lparr>heap = (\<lambda>a. []), next_addr = 1, tasks = 0, sortMode = ByCreatedAt,
      activeTagFilter = None, activeTagLabel = [], storage = st, elements = d,
      env = e, tick = 0\<rparr>"

subsection \<open>loadTasks and saveTasks\<close>

text \<open>
  \<open>loadTasks\<close> (app.js, lines 56 to 76). First the callback of \<open>parsed.map\<close>, one function per field of the object
  literal, evaluated in the order the literal lists them. The number beside a result is the
  count of host calls made so far.
\<close>

definition hydrate_id :: "platform \<Rightarrow> env \<Rightarrow> json \<Rightarrow> nat \<Rightarrow> (error + jsstring) \<times> nat" where
  "hydrate_id P e t k =
     (case Get t (str ''id'') of
        Inl err \<Rightarrow> (Inl err, k)
      | Inr v \<Rightarrow>
          (if \<not> nullish v then (ToString P (the v), k)
           else (case randomUUID e of
                   Some uuid \<Rightarrow> (Inr (uuid k), Suc k)
                 | None \<Rightarrow> (Inr (Number_toString P (Num (of_int (Date_now e k)))), Suc k))))"

definition hydrate_title :: "platform \<Rightarrow> json \<Rightarrow> error + jsstring" where
  "hydrate_title P t =
     (case Get t (str ''title'') of
        Inl err \<Rightarrow> Inl err
      | Inr v \<Rightarrow>
          (case (if nullish v then Inr [] else ToString P (the v)) of
             Inl err \<Rightarrow> Inl err
           | Inr s \<Rightarrow> Inr (trim s)))"

definition hydrate_completed :: "json \<Rightarrow> error + bool" where
  "hydrate_completed t =
     (case Get t (str ''completed'') of
        Inl err \<Rightarrow> Inl err
      | Inr v \<Rightarrow> Inr (ToBoolean v))"

definition hydrate_createdAt :: "platform \<Rightarrow> env \<Rightarrow> json \<Rightarrow> nat \<Rightarrow> (error + jsnum) \<times> nat" where
  "hydrate_createdAt P e t k =
     (case Get t (str ''createdAt'') of
        Inl err \<Rightarrow> (Inl err, k)
      | Inr v \<Rightarrow>
          (if nullish v then (Inr (Num (of_int (Date_now e k))), Suc k)
           else (ToNumber P (the v), k)))"

text \<open>\<open>t.tags.map((tag) => String(tag).trim())\<close>, stopping at the first throw.\<close>

fun trim_strings :: "platform \<Rightarrow> json list \<Rightarrow> error + jsstring list" where
  "trim_strings P [] = Inr []"
| "trim_strings P (v # vs) =
     (case ToString P v of
        Inl err \<Rightarrow> Inl err
      | Inr s \<Rightarrow>
          (case trim_strings P vs of
             Inl err \<Rightarrow> Inl err
           | Inr ss \<Rightarrow> Inr (trim s # ss)))"

definition hydrate_tags :: "platform \<Rightarrow> json \<Rightarrow> error + jsstring list" where
  "hydrate_tags P t =
     (case Get t (str ''tags'') of
        Inl err \<Rightarrow> Inl err
      | Inr v \<Rightarrow>
          (case v of
             Some (JArr vs) \<Rightarrow>
               (case trim_strings P vs of
                  Inl err \<Rightarrow> Inl err
                | Inr ss \<Rightarrow> Inr (filter (\<lambda>s. s \<noteq> []) ss))
           | _ \<Rightarrow> Inr []))"

definition hydrate :: "platform \<Rightarrow> env \<Rightarrow> json \<Rightarrow> nat \<Rightarrow> (error + task) \<times> nat" where
  "hydrate P e t k =
     (case hydrate_id P e t k of
        (Inl err, k1) \<Rightarrow> (Inl err, k1)
      | (Inr i, k1) \<Rightarrow>
     (case hydrate_title P t of
        Inl err \<Rightarrow> (Inl err, k1)
      | Inr ti \<Rightarrow>
     (case hydrate_completed t of
        Inl err \<Rightarrow> (Inl err, k1)
      | Inr c \<Rightarrow>
     (case hydrate_createdAt P e t k1 of
        (Inl err, k2) \<Rightarrow> (Inl err, k2)
      | (Inr ca, k2) \<Rightarrow>
     (case hydrate_tags P t of
        Inl err \<Rightarrow> (Inl err, k2)
      | Inr tg \<Rightarrow>
          (Inr \<lparr>id_t = i, title = ti, completed = c, createdAt = ca, tags = tg\<rparr>, k2))))))"

text \<open>\<open>parsed.map(...)\<close>: the records left to right, stopping at the first throw.\<close>

fun hydrate_all :: "platform \<Rightarrow> env \<Rightarrow> json list \<Rightarrow> nat \<Rightarrow> (error + task list) \<times> nat" where
  "hydrate_all P e [] k = (Inr [], k)"
| "hydrate_all P e (t # ts) k =
     (case hydrate P e t k of
        (Inl err, k1) \<Rightarrow> (Inl err, k1)
      | (Inr x, k1) \<Rightarrow>
          (case hydrate_all P e ts k1 of
             (Inl err, k2) \<Rightarrow> (Inl err, k2)
           | (Inr xs, k2) \<Rightarrow> (Inr (x # xs), k2)))"

text \<open>
  The body of the \<open>try\<close> in \<open>loadTasks\<close>: the exception it ends with, if any, and the state
  it leaves.
\<close>

definition loadTasks_try :: "platform \<Rightarrow> state \<Rightarrow> error option \<times> state" where
  "loadTasks_try P s =
     (case getItem (storage s) of
        Inl err \<Rightarrow> (Some err, s)
      | Inr raw \<Rightarrow>
          (if raw = None \<or> raw = Some EmptyString then (None, s)
           else (case JSON_parse (the raw) of
                   Inl err \<Rightarrow> (Some err, s)
                 | Inr parsed \<Rightarrow>
                     (case parsed of
                        JArr ts \<Rightarrow>
                          (case hydrate_all P (env s) ts (tick s) of
                             (Inl err, k) \<Rightarrow> (Some err, s\<lparr>tick := k\<rparr>)
                           | (Inr new, k) \<Rightarrow> (None, assign_tasks new (s\<lparr>tick := k\<rparr>)))
                      | _ \<Rightarrow> (None, s)))))"

text \<open>The \<open>catch\<close> block: \<open>tasks = []\<close>.\<close>

definition loadTasks :: "platform \<Rightarrow> state \<Rightarrow> state" where
  "loadTasks P s =
     (case loadTasks_try P s of
        (None, s') \<Rightarrow> s'
      | (Some err, s') \<Rightarrow> assign_tasks [] s')"

text \<open>
  \<open>saveTasks\<close> (lines 78 to 84): the \<open>catch\<close> block is empty, so a failed write is
  dropped.
\<close>

definition saveTasks :: "state \<Rightarrow> state" where
  "saveTasks s =
     (case setItem (JSON_stringify (the_tasks s)) (storage s) of
        (err, st') \<Rightarrow> s\<lparr>storage := st'\<rparr>)"

subsection \<open>Rendering\<close>

text \<open>
  \<open>updateTaskCount\<close> (lines 91 to 103). Its text, from \<open>remaining\<close> and \<open>total\<close> (here
  \<open>total_n\<close>):
\<close>

definition count_text :: "nat \<Rightarrow> nat \<Rightarrow> jsstring" where
  "count_text remaining total_n =
     (if total_n > 0 then
        (if remaining = 0 then str ''All done''
         else nat_to_string remaining @ str '' of '' @ nat_to_string total_n @ str '' task''
              @ (if total_n = 1 then [] else str ''s'') @ str '' left'')
      else str ''No tasks'')"

definition updateTaskCount :: "state \<Rightarrow> state" where
  "updateTaskCount s =
     (let remaining = length (filter (\<lambda>t. \<not> completed t) (the_tasks s));
          total_n = length (the_tasks s)
      in s\<lparr>elements := (elements s)
            \<lparr>task_count := count_text remaining total_n,
             clearCompleted_disabled := list_all (\<lambda>t. \<not> completed t) (the_tasks s)\<rparr>\<rparr>)"

text \<open>
  \<open>Array.prototype.sort\<close> is stable. For a consistent comparator every conforming engine
  returns the same array, and a stable insertion sort computes it; for an inconsistent one
  the order is implementation-defined, and this is one of the orders allowed.
\<close>

fun insert_sorted :: "('a \<Rightarrow> 'a \<Rightarrow> jsnum) \<Rightarrow> 'a \<Rightarrow> 'a list \<Rightarrow> 'a list" where
  "insert_sorted cmp x [] = [x]"
| "insert_sorted cmp x (y # ys) =
     (if SortCompare_sign (cmp x y) \<le> 0 then x # y # ys else y # insert_sorted cmp x ys)"

fun Array_sort :: "('a \<Rightarrow> 'a \<Rightarrow> jsnum) \<Rightarrow> 'a list \<Rightarrow> 'a list" where
  "Array_sort cmp [] = []"
| "Array_sort cmp (x # xs) = insert_sorted cmp x (Array_sort cmp xs)"

text \<open>\<open>a.tags && a.tags[0] ? a.tags[0] : ""\<close>\<close>

definition first_tag :: "task \<Rightarrow> jsstring" where
  "first_tag a = (case tags a of [] \<Rightarrow> [] | x # xs \<Rightarrow> (if x \<noteq> [] then x else []))"

text \<open>The comparator handed to \<open>sort\<close> in \<open>renderTasks\<close> (lines 198 to 217).\<close>

definition compareTasks :: "platform \<Rightarrow> sort_mode \<Rightarrow> task \<Rightarrow> task \<Rightarrow> jsnum" where
  "compareTasks P mode a b =
     (if mode = ByTag then
        (let aTag = toLowerCase P (first_tag a);
             bTag = toLowerCase P (first_tag b)
         in if aTag = [] \<and> bTag = [] then js_minus (createdAt a) (createdAt b)
            else if aTag = [] then Num 1
            else if bTag = [] then Num (- 1)
            else (let tagCompare = localeCompare P aTag bTag
                  in if tagCompare \<noteq> 0 then Num (of_int tagCompare)
                     else js_minus (createdAt a) (createdAt b)))
      else js_minus (createdAt a) (createdAt b))"

definition filter_message :: "jsstring \<Rightarrow> jsstring" where
  "filter_message label =
     str ''No tasks with tag '' @ [0x201C] @ label @ [0x201D]
     @ str ''. Clear the tag filter to see all tasks.''"

definition nothing_message :: jsstring where
  "nothing_message = str ''Nothing here yet. Add your first task above.''"

text \<open>The predicate of \<open>tasks.filter\<close> in \<open>renderTasks\<close>.\<close>

definition has_tag :: "platform \<Rightarrow> jsstring \<Rightarrow> task \<Rightarrow> bool" where
  "has_tag P f t = list_ex (\<lambda>tag. toLowerCase P tag = f) (tags t)"

text \<open>
  \<open>renderTasks\<close> (lines 172 to 225). With no filter \<open>visibleTasks\<close> is the array \<open>tasks\<close> itself; with a filter
  it is a new array. \<open>[...visibleTasks]\<close> is a new array, and \<open>sort\<close> changes that one.
\<close>

definition renderTasks :: "platform \<Rightarrow> state \<Rightarrow> state" where
  "renderTasks P s =
     (case (case activeTagFilter s of
              None \<Rightarrow> (tasks s, s)
            | Some f \<Rightarrow> alloc (filter (has_tag P f) (heap s (tasks s))) s) of
        (visibleTasks, s1) \<Rightarrow>
          updateTaskCount
            (if length (heap s1 visibleTasks) = 0 then
               (let message =
                      (if activeTagFilter s1 \<noteq> None \<and> activeTagFilter s1 \<noteq> Some []
                          \<and> activeTagLabel s1 \<noteq> []
                       then filter_message (activeTagLabel s1)
                       else nothing_message)
                in s1\<lparr>elements := (elements s1)\<lparr>task_list := EmptyState message\<rparr>\<rparr>)
             else
               (case alloc (heap s1 visibleTasks) s1 of
                  (sorted_copy, s2) \<Rightarrow>
                    (let s3 = s2\<lparr>heap := (heap s2)
                                 (sorted_copy :=
                                    Array_sort (compareTasks P (sortMode s2))
                                      (heap s2 sorted_copy))\<rparr>
                     in s3\<lparr>elements := (elements s3)
                             \<lparr>task_list := TaskItems (heap s3 sorted_copy)\<rparr>\<rparr>))))"

text \<open>\<open>setActiveTagFilter\<close> (lines 34 to 54).\<close>

definition setActiveTagFilter :: "platform \<Rightarrow> jsstring option \<Rightarrow> state \<Rightarrow> state" where
  "setActiveTagFilter P tagLabel s =
     (let s1 = (if tagLabel = None \<or> tagLabel = Some []
                then s\<lparr>activeTagFilter := None, activeTagLabel := []\<rparr>
                else s\<lparr>activeTagFilter := Some (toLowerCase P (the tagLabel)),
                       activeTagLabel := the tagLabel\<rparr>);
          s2 = (if activeTagFilter s1 \<noteq> None \<and> activeTagFilter s1 \<noteq> Some []
                then s1\<lparr>elements := (elements s1)
                          \<lparr>tagFilterStatus_hidden := False, tagFilterName := activeTagLabel s1\<rparr>\<rparr>
                else s1\<lparr>elements := (elements s1)
                          \<lparr>tagFilterStatus_hidden := True, tagFilterName := []\<rparr>\<rparr>)
      in renderTasks P s2)"

subsection \<open>The operations on the collection\<close>

text \<open>\<open>parseTags\<close> (lines 227 to 233).\<close>

definition parseTags :: "jsstring \<Rightarrow> jsstring list" where
  "parseTags input =
     (if input = [] then []
      else filter (\<lambda>s. s \<noteq> []) (map trim (String_split 0x2C input)))"

text \<open>
  \<open>crypto.randomUUID?.() ?? `${Date.now()}-${Math.random()}`\<close>, with the count of host
  calls.
\<close>

definition new_id :: "platform \<Rightarrow> env \<Rightarrow> nat \<Rightarrow> jsstring \<times> nat" where
  "new_id P e k =
     (case randomUUID e of
        Some uuid \<Rightarrow> (uuid k, Suc k)
      | None \<Rightarrow>
          (Number_toString P (Num (of_int (Date_now e k))) @ str ''-''
             @ Number_toString P (Num (Math_random e (Suc k))),
           Suc (Suc k)))"

text \<open>\<open>addTask\<close> (lines 235 to 250). \<open>push\<close> changes the array of \<open>tasks\<close> in place.\<close>

definition addTask :: "platform \<Rightarrow> jsstring \<Rightarrow> jsstring \<Rightarrow> state \<Rightarrow> state" where
  "addTask P title_text tagsInput s =
     (let trimmed = trim title_text
      in if trimmed = [] then s
         else
           (case new_id P (env s) (tick s) of
              (i, k) \<Rightarrow>
                (let newTask = \<lparr>id_t = i, title = trimmed, completed = False,
                                createdAt = Num (of_int (Date_now (env s) k)),
                                tags = parseTags tagsInput\<rparr>;
                     s1 = s\<lparr>tick := Suc k\<rparr>;
                     s2 = s1\<lparr>heap := (heap s1)(tasks s1 := heap s1 (tasks s1) @ [newTask])\<rparr>
                 in renderTasks P (saveTasks s2))))"

text \<open>
  \<open>removeTask\<close>, \<open>toggleTaskCompleted\<close> and \<open>clearCompletedTasks\<close> (lines 252 to 270), each
  of which builds a new array and assigns it to \<open>tasks\<close>.
\<close>

definition removeTask :: "platform \<Rightarrow> jsstring \<Rightarrow> state \<Rightarrow> state" where
  "removeTask P i s =
     renderTasks P (saveTasks (assign_tasks (filter (\<lambda>t. id_t t \<noteq> i) (the_tasks s)) s))"

definition toggleTaskCompleted :: "platform \<Rightarrow> jsstring \<Rightarrow> state \<Rightarrow> state" where
  "toggleTaskCompleted P i s =
     renderTasks P (saveTasks (assign_tasks
       (map (\<lambda>t. if id_t t = i then t\<lparr>completed := \<not> completed t\<rparr> else t) (the_tasks s)) s))"

definition clearCompletedTasks :: "platform \<Rightarrow> state \<Rightarrow> state" where
  "clearCompletedTasks P s =
     renderTasks P (saveTasks (assign_tasks (filter (\<lambda>t. \<not> completed t) (the_tasks s)) s))"

text \<open>\<open>init\<close> (lines 284 to 311), without the registration of the event listeners.\<close>

definition init :: "platform \<Rightarrow> state \<Rightarrow> state" where
  "init P s = renderTasks P (loadTasks P s)"

subsection \<open>What the specification says, in its own words\<close>

text \<open>The tasks the page shows, in the order it shows them.\<close>

definition displayed :: "state \<Rightarrow> task list" where
  "displayed s = (case task_list (elements s) of EmptyState m \<Rightarrow> [] | TaskItems ts \<Rightarrow> ts)"

text \<open>A number that is a number: every double but \<open>NaN\<close>. A finite one: a \<open>Num\<close>.\<close>

definition numeric :: "jsnum \<Rightarrow> bool" where
  "numeric n = (n \<noteq> NaN)"

definition finite_number :: "jsnum \<Rightarrow> bool" where
  "finite_number n = (case n of Num x \<Rightarrow> True | _ \<Rightarrow> False)"

text \<open>Ascending order of numbers that are numbers.\<close>

fun num_le :: "jsnum \<Rightarrow> jsnum \<Rightarrow> bool" where
  "num_le NaN b = False"
| "num_le a NaN = False"
| "num_le NegInfinity b = True"
| "num_le a Infinity = True"
| "num_le (Num a) (Num b) = (a \<le> b)"
| "num_le Infinity b = False"
| "num_le a NegInfinity = False"

text \<open>
  The order of the specification's sort rule: by creation time, ascending; by tag, the
  tasks with no tags after all tagged ones, the untagged among themselves by creation time,
  the tagged by the collation of their lower-cased first tags and then by creation time.
\<close>

definition ordered_before :: "platform \<Rightarrow> sort_mode \<Rightarrow> task \<Rightarrow> task \<Rightarrow> bool" where
  "ordered_before P mode a b =
     (case mode of
        ByCreatedAt \<Rightarrow> num_le (createdAt a) (createdAt b)
      | ByTag \<Rightarrow>
          (if tags a = [] \<and> tags b = [] then num_le (createdAt a) (createdAt b)
           else if tags a = [] then False
           else if tags b = [] then True
           else (let c = localeCompare P (toLowerCase P (hd (tags a)))
                                         (toLowerCase P (hd (tags b)))
                 in c < 0 \<or> (c = 0 \<and> num_le (createdAt a) (createdAt b)))))"

text \<open>
  The tasks that pass the filter: all of them without a filter; with the filter \<open>f\<close>, those
  with a tag whose lower-case form is \<open>f\<close>.
\<close>

definition candidates :: "platform \<Rightarrow> state \<Rightarrow> task list" where
  "candidates P s =
     (case activeTagFilter s of
        None \<Rightarrow> the_tasks s
      | Some f \<Rightarrow> filter (\<lambda>t. \<exists>tag \<in> set (tags t). toLowerCase P tag = f) (the_tasks s))"

text \<open>
  What the sort rule can be stated for: a creation time that is a number, and tags that are
  not empty strings (the data model's invariant).
\<close>

definition sortable :: "task \<Rightarrow> bool" where
  "sortable t = (numeric (createdAt t) \<and> list_all (\<lambda>g. g \<noteq> []) (tags t))"

text \<open>
  The well-formed task of the round-trip property: a trimmed non-empty title, a numeric
  creation time, tags that are trimmed non-empty strings. The identifier is a string by its
  type.
\<close>

definition well_formed :: "task \<Rightarrow> bool" where
  "well_formed t =
     (title t \<noteq> [] \<and> trim (title t) = title t \<and> numeric (createdAt t)
      \<and> list_all (\<lambda>g. g \<noteq> [] \<and> trim g = g) (tags t))"

text \<open>
  What the host's tables are assumed to do. Lower-casing maps the empty string, and no
  other, to the empty string. The collation is a consistent comparator (ECMA-402): its sign
  flips when the arguments are swapped, and "not after" is transitive.
\<close>

definition lowercase_keeps_empty :: "platform \<Rightarrow> bool" where
  "lowercase_keeps_empty P = (\<forall>s. (toLowerCase P s = []) = (s = []))"

definition collation_consistent :: "platform \<Rightarrow> bool" where
  "collation_consistent P =
     ((\<forall>a b. sgn (localeCompare P a b) = - sgn (localeCompare P b a))
      \<and> (\<forall>a b c. localeCompare P a b \<le> 0 \<and> localeCompare P b c \<le> 0
                    \<longrightarrow> localeCompare P a c \<le> 0))"

text \<open>
  The stored record \<open>r\<close> and the task \<open>t\<close> loaded from it, field by field, \<open>k\<close> being the
  count of host calls when the record is reached: a missing \<open>id\<close> is a newly generated one,
  any other is the stored one as a string; the title is the stored one as a string, trimmed;
  \<open>completed\<close> is the stored one as a boolean; a missing \<open>createdAt\<close> is the current time,
  any other is the stored one as a number; the tags are those of the stored elements, as
  strings and trimmed, that are not empty, and none when the stored tags are no array.
\<close>

definition field :: "json \<Rightarrow> string \<Rightarrow> json option" where
  "field r name = (case r of JObj kvs \<Rightarrow> map_of kvs (str name) | _ \<Rightarrow> None)"

definition generated_id :: "platform \<Rightarrow> env \<Rightarrow> nat \<Rightarrow> jsstring" where
  "generated_id P e k =
     (case randomUUID e of
        Some uuid \<Rightarrow> uuid k
      | None \<Rightarrow> Number_toString P (Num (of_int (Date_now e k))))"

definition coerced :: "platform \<Rightarrow> env \<Rightarrow> nat \<Rightarrow> json \<Rightarrow> task \<Rightarrow> bool" where
  "coerced P e k r t =
     ((if nullish (field r ''id'') then id_t t = generated_id P e k
       else ToString P (the (field r ''id'')) = Inr (id_t t))
      \<and> (if nullish (field r ''title'') then title t = []
          else (\<exists>x. ToString P (the (field r ''title'')) = Inr x \<and> title t = trim x))
      \<and> completed t = ToBoolean (field r ''completed'')
      \<and> (if nullish (field r ''createdAt'')
          then createdAt t =
                 Num (of_int (Date_now e (if nullish (field r ''id'') then Suc k else k)))
          else ToNumber P (the (field r ''createdAt'')) = Inr (createdAt t))
      \<and> (case field r ''tags'' of
            Some (JArr vs) \<Rightarrow>
              (\<exists>ss. map (ToString P) vs = map Inr ss
                    \<and> tags t = filter (\<lambda>g. g \<noteq> []) (map trim ss))
          | _ \<Rightarrow> tags t = []))"

text \<open>
  The stored records and the tasks loaded from them, one task per record in the stored
  order, each record coerced at the count of host calls its predecessors left: a record
  makes one call for a missing \<open>id\<close> and one for a missing \<open>createdAt\<close>.
\<close>

definition host_calls :: "json \<Rightarrow> nat" where
  "host_calls r =
     (if nullish (field r ''id'') then 1 else 0)
     + (if nullish (field r ''createdAt'') then 1 else 0)"

fun coerced_in_turn :: "platform \<Rightarrow> env \<Rightarrow> nat \<Rightarrow> json list \<Rightarrow> task list \<Rightarrow> bool" where
  "coerced_in_turn P e k [] ts = (ts = [])"
| "coerced_in_turn P e k (r # rs) ts =
     (case ts of
        [] \<Rightarrow> False
      | t # ts' \<Rightarrow> coerced P e k r t \<and> coerced_in_turn P e (k + host_calls r) rs ts')"



text \<open>Whether a stored string decodes to an array.\<close>

definition decodes_to_sequence :: "stored \<Rightarrow> bool" where
  "decodes_to_sequence raw = (case raw of Encoded (JArr rs) \<Rightarrow> True | _ \<Rightarrow> False)"

subsection \<open>A host, a store and a page for the examples\<close>

text \<open>
  ASCII lower-casing, the order of the code units as collation, natural numbers printed in
  decimal. The one string the examples convert to a number, \<open>"abc"\<close>, is not the text
  of a number: every string converts to \<open>NaN\<close> here.
\<close>

fun compare_units :: "jsstring \<Rightarrow> jsstring \<Rightarrow> int" where
  "compare_units [] [] = 0"
| "compare_units [] (y # ys) = - 1"
| "compare_units (x # xs) [] = 1"
| "compare_units (x # xs) (y # ys) =
     (if x < y then - 1 else if y < x then 1 else compare_units xs ys)"

definition ascii_lower :: "jsstring \<Rightarrow> jsstring" where
  "ascii_lower s = map (\<lambda>c. if 0x41 \<le> c \<and> c \<le> 0x5A then c + 0x20 else c) s"

definition ascii_host :: platform where
  "ascii_host =
     \<lparr>toLowerCase = ascii_lower,
      localeCompare = compare_units,
      Number_toString = (\<lambda>n. case n of Num x \<Rightarrow> nat_to_string (nat \<lfloor>x\<rfloor>) | _ \<Rightarrow> str ''NaN''),
      StringToNumber = (\<lambda>s. NaN)\<rparr>"

definition example_env :: env where
  "example_env =
     \<lparr>randomUUID = Some (\<lambda>k. str ''uuid-'' @ nat_to_string k),
      Date_now = (\<lambda>k. 1700000000000 + int k),
      Math_random = (\<lambda>k. 1 / 2)\<rparr>"

definition blank_page :: dom where
  "blank_page =
     \<lparr>task_list = EmptyState [], task_count = [], clearCompleted_disabled = False,
      tagFilterStatus_hidden = True, tagFilterName = []\<rparr>"

definition store_of :: "stored option \<Rightarrow> storage" where
  "store_of v = \<lparr>item = v, accessible = True, writable = True, setItem_calls = 0\<rparr>"

definition example_task :: "string \<Rightarrow> bool \<Rightarrow> jsnum \<Rightarrow> string list \<Rightarrow> task" where
  "example_task name done created labels =
     \<lparr>id_t = str name, title = str name, completed = done, createdAt = created,
      tags = map str labels\<rparr>"

text \<open>The module's state with a given collection, store and sort mode, on the blank page.\<close>

definition example_state :: "task list \<Rightarrow> storage \<Rightarrow> sort_mode \<Rightarrow> state" where
  "example_state ts st mode =
     (assign_tasks ts (initial_state st blank_page example_env))\<lparr>sortMode := mode\<rparr>"

definition three_tasks :: "task list" where
  "three_tasks =
     [example_task ''a'' True (Num 1) [], example_task ''b'' False (Num 2) [],
      example_task ''c'' True (Num 3) []]"

definition by_time_tasks :: "task list" where
  "by_time_tasks =
     [example_task ''x'' False (Num 3) [], example_task ''y'' False (Num 1) [],
      example_task ''z'' False (Num 2) []]"

definition by_tag_tasks :: "task list" where
  "by_tag_tasks =
     [example_task ''x'' False (Num 5) [''b''], example_task ''y'' False (Num 5) [],
      example_task ''z'' False (Num 5) [''a'']]"

definition home_tasks :: "task list" where
  "home_tasks =
     [example_task ''milk'' False (Num 1) [''home''],
      example_task ''mail'' False (Num 2) [''office'']]"

text \<open>The state after a click on a tag pill with the given label.\<close>

definition filtered_state :: "string \<Rightarrow> state" where
  "filtered_state name =
     setActiveTagFilter ascii_host (Some (str name))
       (example_state home_tasks (store_of None) ByCreatedAt)"

text \<open>
  Three states for the round trip: a task created at \<open>Infinity\<close>; a store whose quota is
  used up, holding an earlier empty collection; a store the page may not use.
\<close>

definition infinite_time_state :: state where
  "infinite_time_state =
     example_state [example_task ''a'' False Infinity []] (store_of None) ByCreatedAt"

definition quota_state :: state where
  "quota_state =
     example_state [example_task ''a'' False (Num 1) []]
       ((store_of (Some (Encoded (JArr []))))\<lparr>writable := False\<rparr>) ByCreatedAt"

definition denied_state :: state where
  "denied_state =
     example_state [example_task ''a'' False (Num 1) []]
       ((store_of None)\<lparr>accessible := False\<rparr>) ByCreatedAt"



definition loading_state :: "stored \<Rightarrow> state" where
  "loading_state raw = initial_state (store_of (Some raw)) blank_page example_env"



text \<open>
  A stored collection whose second record has a \<open>createdAt\<close> that is no number, and the
  tasks loaded from it.
\<close>

definition timed_record :: "string \<Rightarrow> json \<Rightarrow> json" where
  "timed_record name created =
     JObj [(str ''id'', JStr (str name)), (str ''title'', JStr (str name)),
           (str ''createdAt'', created)]"

definition unnumbered_store :: stored where
  "unnumbered_store =
     Encoded (JArr [timed_record ''p'' (JNum (Num 2)), timed_record ''q'' (JStr (str ''abc'')),
                    timed_record ''r'' (JNum (Num 1))])"

definition unnumbered_tasks :: "task list" where
  "unnumbered_tasks =
     [example_task ''p'' False (Num 2) [], example_task ''q'' False NaN [],
      example_task ''r'' False (Num 1) []]"




subsection \<open>The states the program reaches\<close>

text \<open>
  The program starts with \<open>init\<close> on the module's initial state; after that it runs one
  handler at a time: the form's submit, a click on a remove button, a checkbox, the clear
  button, a tag pill or the filter's clear button, and a change of the sort selection.
\<close>

inductive reachable :: "platform \<Rightarrow> state \<Rightarrow> bool" for P :: platform where
  start: "reachable P (init P (initial_state st d e))"
| submit: "reachable P s \<Longrightarrow> reachable P (addTask P title_text tagsInput s)"
| remove: "reachable P s \<Longrightarrow> reachable P (removeTask P i s)"
| toggle: "reachable P s \<Longrightarrow> reachable P (toggleTaskCompleted P i s)"
| clear: "reachable P s \<Longrightarrow> reachable P (clearCompletedTasks P s)"
| tag_click: "reachable P s \<Longrightarrow> reachable P (setActiveTagFilter P tagLabel s)"
| sort_change: "reachable P s \<Longrightarrow> reachable P (renderTasks P (s\<lparr>sortMode := m\<rparr>))"

text \<open>
  The filter as \<open>setActiveTagFilter\<close> leaves it: no filter and no label, or a non-empty
  label and its lower-case form.
\<close>

definition filter_set :: "platform \<Rightarrow> state \<Rightarrow> bool" where
  "filter_set P s =
     (case activeTagFilter s of
        None \<Rightarrow> activeTagLabel s = []
      | Some f \<Rightarrow> activeTagLabel s \<noteq> [] \<and> f = toLowerCase P (activeTagLabel s))"

text \<open>The data model's invariant on tags: no task has an empty string among its tags.\<close>

definition tags_nonempty :: "task list \<Rightarrow> bool" where
  "tags_nonempty ts = list_all (\<lambda>t. list_all (\<lambda>g. g \<noteq> []) (tags t)) ts"

section \<open>Properties\<close>

subsection \<open>String literals\<close>

lemma code_unit_inj:
  "(of_nat (of_char (c::char)) :: 16 word) = of_nat (of_char d) \<longleftrightarrow> c = d"
proof -
  have c: "(of_char c :: nat) < 2 ^ 16"
    by (rule less_trans [OF nat_of_char_less_256]) simp
  have d: "(of_char d :: nat) < 2 ^ 16"
    by (rule less_trans [OF nat_of_char_less_256]) simp
  have "(of_nat (of_char c) :: 16 word) = of_nat (of_char d) \<longleftrightarrow> (of_char c :: nat) = of_char d"
    using c d by (simp add: word_of_nat_eq_iff take_bit_nat_eq_self)
  then show ?thesis by simp
qed

lemma str_eq_iff [simp]: "str a = str b \<longleftrightarrow> a = b"
proof (induction a arbitrary: b)
  case Nil
  then show ?case by (auto simp: str_def)
next
  case (Cons x xs)
  then show ?case by (cases b) (simp_all add: str_def code_unit_inj)
qed

lemma str_Nil [simp]: "str [] = []"
  by (simp add: str_def)

lemma str_eq_Nil [simp]: "str a = [] \<longleftrightarrow> a = []"
  by (simp add: str_def)

lemma str_append: "str a @ str b = str (a @ b)"
  by (simp add: str_def)

subsection \<open>What rendering and saving leave alone\<close>

lemma updateTaskCount_tasks [simp]: "tasks (updateTaskCount s) = tasks s"
  and updateTaskCount_heap [simp]: "heap (updateTaskCount s) = heap s"
  and updateTaskCount_next [simp]: "next_addr (updateTaskCount s) = next_addr s"
  and updateTaskCount_storage [simp]: "storage (updateTaskCount s) = storage s"
  by (simp_all add: updateTaskCount_def Let_def)

lemma renderTasks_tasks: "tasks (renderTasks P s) = tasks s"
  by (simp add: renderTasks_def alloc_def Let_def split: option.split prod.split)

lemma renderTasks_storage: "storage (renderTasks P s) = storage s"
  by (simp add: renderTasks_def alloc_def Let_def split: option.split prod.split)

lemma renderTasks_heap: "a < next_addr s \<Longrightarrow> heap (renderTasks P s) a = heap s a"
  by (simp add: renderTasks_def alloc_def Let_def split: option.split prod.split)

lemma renderTasks_the_tasks:
  "tasks s < next_addr s \<Longrightarrow> the_tasks (renderTasks P s) = the_tasks s"
  by (simp add: the_tasks_def renderTasks_tasks renderTasks_heap)

lemma saveTasks_tasks [simp]: "tasks (saveTasks s) = tasks s"
  and saveTasks_heap [simp]: "heap (saveTasks s) = heap s"
  and saveTasks_next [simp]: "next_addr (saveTasks s) = next_addr s"
  by (simp_all add: saveTasks_def split: prod.split)

lemma saveTasks_the_tasks [simp]: "the_tasks (saveTasks s) = the_tasks s"
  by (simp add: the_tasks_def)

lemma assign_tasks_the_tasks [simp]: "the_tasks (assign_tasks xs s) = xs"
  and assign_tasks_allocated [simp]: "tasks (assign_tasks xs s) < next_addr (assign_tasks xs s)"
  by (simp_all add: assign_tasks_def alloc_def the_tasks_def)

lemma example_state_the_tasks [simp]: "the_tasks (example_state ts st m) = ts"
  by (simp add: example_state_def the_tasks_def assign_tasks_def alloc_def)

lemma example_state_allocated [simp]:
  "tasks (example_state ts st m) < next_addr (example_state ts st m)"
  by (simp add: example_state_def assign_tasks_def alloc_def)

lemma renderTasks_next: "next_addr s \<le> next_addr (renderTasks P s)"
  by (simp add: renderTasks_def alloc_def Let_def split: option.split prod.split)

lemma renderTasks_allocated:
  "tasks s < next_addr s \<Longrightarrow> tasks (renderTasks P s) < next_addr (renderTasks P s)"
  using renderTasks_next [of s P] by (simp add: renderTasks_tasks)

lemma initial_state_allocated: "tasks (initial_state st d e) < next_addr (initial_state st d e)"
  by (simp add: initial_state_def)

subsection \<open>The count summary\<close>

lemma updateTaskCount_count:
  "task_count (elements (updateTaskCount s)) =
     count_text (length (filter (\<lambda>t. \<not> completed t) (the_tasks s))) (length (the_tasks s))"
  by (simp add: updateTaskCount_def Let_def)

lemma three_tasks_counts:
  "length (filter (\<lambda>t. \<not> completed t) three_tasks) = 1" "length three_tasks = 3"
  by (simp_all add: three_tasks_def example_task_def)

lemma count_text_1_3: "count_text 1 3 = str ''1 of 3 tasks left''"
  by (simp add: count_text_def nat_to_string_def digits.simps str_append)

text \<open>
  C3, as the code has it. With \<open>T\<close> tasks of which \<open>R\<close> are not completed, the count line
  reads "No tasks" when \<open>T = 0\<close>, else "All done" when \<open>R = 0\<close>, else "R of T task left"
  when \<open>T = 1\<close> and "R of T tasks left" otherwise; \<open>updateTaskCount\<close> writes that line for
  the collection's own \<open>R\<close> and \<open>T\<close>; and on three tasks of which one is not completed it
  reads "1 of 3 tasks left".
\<close>

theorem count_summary:
  "count_text R T =
     (if T = 0 then str ''No tasks''
      else if R = 0 then str ''All done''
      else nat_to_string R @ str '' of '' @ nat_to_string T
           @ (if T = 1 then str '' task left'' else str '' tasks left''))
   \<and> task_count (elements (updateTaskCount s)) =
       count_text (length (filter (\<lambda>t. \<not> completed t) (the_tasks s))) (length (the_tasks s))
   \<and> task_count (elements (updateTaskCount (example_state three_tasks (store_of None) ByCreatedAt)))
       = str ''1 of 3 tasks left''"
proof -
  have a: "count_text R T =
     (if T = 0 then str ''No tasks''
      else if R = 0 then str ''All done''
      else nat_to_string R @ str '' of '' @ nat_to_string T
           @ (if T = 1 then str '' task left'' else str '' tasks left''))"
    by (simp add: count_text_def str_append)
  have e: "task_count (elements (updateTaskCount (example_state three_tasks (store_of None) ByCreatedAt)))
       = str ''1 of 3 tasks left''"
    by (simp only: updateTaskCount_count example_state_the_tasks three_tasks_counts count_text_1_3)
  from a updateTaskCount_count e show ?thesis by blast
qed

text \<open>
  C3 as the specification states it fails on its own example: on three tasks of which one
  is not completed the line is not "2 of 3 tasks left".
\<close>

theorem count_summary_counterexample:
  "length three_tasks = 3
   \<and> length (filter (\<lambda>t. \<not> completed t) three_tasks) = 1
   \<and> the_tasks (example_state three_tasks (store_of None) ByCreatedAt) = three_tasks
   \<and> task_count (elements (updateTaskCount (example_state three_tasks (store_of None) ByCreatedAt)))
       \<noteq> str ''2 of 3 tasks left''"
proof -
  have "task_count (elements (updateTaskCount (example_state three_tasks (store_of None) ByCreatedAt)))
       = str ''1 of 3 tasks left''"
    by (simp only: updateTaskCount_count example_state_the_tasks three_tasks_counts count_text_1_3)
  then show ?thesis
    by (simp add: three_tasks_counts)
qed

subsection \<open>Adding a task\<close>

text \<open>
  C7. A title that trims to the empty string makes \<open>addTask\<close> return at once: the state
  is the one before, so no task is made, the collection is as it was and \<open>setItem\<close> has
  not been called.
\<close>

theorem addTask_blank_title:
  "trim title_text = [] \<Longrightarrow> addTask P title_text tagsInput s = s"
  by (simp add: addTask_def)

theorem addTask_blank_title_witness:
  "trim (str '''') = [] \<and> trim (str ''   '') = []
   \<and> addTask ascii_host (str '''') (str ''x,y'') (example_state three_tasks (store_of None) ByCreatedAt)
       = example_state three_tasks (store_of None) ByCreatedAt
   \<and> addTask ascii_host (str ''   '') (str '''') (example_state three_tasks (store_of None) ByCreatedAt)
       = example_state three_tasks (store_of None) ByCreatedAt"
proof -
  have a: "trim (str '''') = []"
    by (simp add: trim_def)
  have b: "trim (str ''   '') = []"
    by (simp add: trim_def str_def isWhiteSpace_def)
  show ?thesis
    using a b addTask_blank_title [OF a] addTask_blank_title [OF b] by simp
qed

subsection \<open>Rendering does not touch the collection\<close>

text \<open>
  C9. \<open>renderTasks\<close> leaves the variable \<open>tasks\<close> on the same array and that array as it
  was, element for element: the sort works on the copy \<open>[...visibleTasks]\<close>. The
  hypothesis says that the array of \<open>tasks\<close> has been allocated, as it is in every state
  the program reaches.
\<close>

theorem renderTasks_keeps_collection:
  "tasks s < next_addr s \<Longrightarrow>
     tasks (renderTasks P s) = tasks s
     \<and> heap (renderTasks P s) (tasks s) = heap s (tasks s)
     \<and> the_tasks (renderTasks P s) = the_tasks s"
  by (simp add: renderTasks_tasks renderTasks_heap renderTasks_the_tasks)

subsection \<open>Toggling twice\<close>

lemma toggle_the_tasks:
  "the_tasks (toggleTaskCompleted P i s) =
     map (\<lambda>t. if id_t t = i then t\<lparr>completed := \<not> completed t\<rparr> else t) (the_tasks s)"
  by (simp add: toggleTaskCompleted_def renderTasks_the_tasks)

text \<open>
  C10. \<open>toggleTaskCompleted(id)\<close> twice gives the collection back: the same tasks, with the
  same fields, in the same order.
\<close>

theorem toggle_twice:
  "the_tasks (toggleTaskCompleted P i (toggleTaskCompleted P i s)) = the_tasks s"
  by (simp add: toggle_the_tasks comp_def map_idI)

subsection \<open>Array.prototype.sort\<close>

lemma mset_insert_sorted: "mset (insert_sorted cmp x ys) = add_mset x (mset ys)"
  by (induction ys) simp_all

lemma mset_Array_sort: "mset (Array_sort cmp xs) = mset xs"
  by (induction xs) (simp_all add: mset_insert_sorted)

lemma set_insert_sorted: "set (insert_sorted cmp x ys) = insert x (set ys)"
  using mset_insert_sorted [of cmp x ys] by (metis set_mset_add_mset_insert set_mset_mset)

lemma set_Array_sort: "set (Array_sort cmp xs) = set xs"
  using mset_Array_sort [of cmp xs] by (metis set_mset_mset)

text \<open>
  Where "not after", as the comparator has it, is total and transitive, the sorted array is
  in that order.
\<close>

lemma sorted_wrt_insert_sorted:
  assumes tot: "\<And>a b. a \<in> A \<Longrightarrow> b \<in> A \<Longrightarrow> \<not> SortCompare_sign (cmp a b) \<le> 0 \<Longrightarrow> le b a"
    and le: "\<And>a b. a \<in> A \<Longrightarrow> b \<in> A \<Longrightarrow> SortCompare_sign (cmp a b) \<le> 0 \<Longrightarrow> le a b"
    and trans: "\<And>a b c. a \<in> A \<Longrightarrow> b \<in> A \<Longrightarrow> c \<in> A \<Longrightarrow> le a b \<Longrightarrow> le b c \<Longrightarrow> le a c"
    and "x \<in> A" "set ys \<subseteq> A" "sorted_wrt le ys"
  shows "sorted_wrt le (insert_sorted cmp x ys)"
  using assms(4-)
proof (induction ys)
  case Nil
  then show ?case by simp
next
  case (Cons y ys)
  show ?case
  proof (cases "SortCompare_sign (cmp x y) \<le> 0")
    case True
    then have xy: "le x y" using le Cons.prems by simp
    have "le x z" if "z \<in> set ys" for z
    proof -
      have "le y z" using Cons.prems that by simp
      then show ?thesis using trans [of x y z] xy Cons.prems that by auto
    qed
    then show ?thesis using True xy Cons.prems by simp
  next
    case False
    then have yx: "le y x" using tot Cons.prems by simp
    have "sorted_wrt le (insert_sorted cmp x ys)"
      using Cons by simp
    then show ?thesis using False yx Cons.prems by (simp add: set_insert_sorted)
  qed
qed

lemma sorted_wrt_Array_sort:
  assumes tot: "\<And>a b. a \<in> A \<Longrightarrow> b \<in> A \<Longrightarrow> \<not> SortCompare_sign (cmp a b) \<le> 0 \<Longrightarrow> le b a"
    and le: "\<And>a b. a \<in> A \<Longrightarrow> b \<in> A \<Longrightarrow> SortCompare_sign (cmp a b) \<le> 0 \<Longrightarrow> le a b"
    and trans: "\<And>a b c. a \<in> A \<Longrightarrow> b \<in> A \<Longrightarrow> c \<in> A \<Longrightarrow> le a b \<Longrightarrow> le b c \<Longrightarrow> le a c"
    and "set xs \<subseteq> A"
  shows "sorted_wrt le (Array_sort cmp xs)"
  using assms(4)
proof (induction xs)
  case Nil
  then show ?case by simp
next
  case (Cons x xs)
  have x: "x \<in> A" and xs: "set (Array_sort cmp xs) \<subseteq> A"
    using Cons.prems by (simp_all add: set_Array_sort)
  have ih: "sorted_wrt le (Array_sort cmp xs)"
    using Cons by simp
  have "sorted_wrt le (insert_sorted cmp x (Array_sort cmp xs))"
    by (rule sorted_wrt_insert_sorted [where A = A and le = le, OF tot le trans x xs ih])
  then show ?case by simp
qed

subsection \<open>The comparator and the order of the specification\<close>

lemma sign_minus_le:
  "numeric a \<Longrightarrow> numeric b \<Longrightarrow> (SortCompare_sign (js_minus a b) \<le> 0) = num_le a b"
  by (cases a; cases b) (auto simp: numeric_def)

lemma num_le_total: "numeric a \<Longrightarrow> numeric b \<Longrightarrow> \<not> num_le a b \<Longrightarrow> num_le b a"
  by (cases a; cases b) (auto simp: numeric_def)

lemma num_le_trans: "num_le a b \<Longrightarrow> num_le b c \<Longrightarrow> num_le a c"
  by (cases a; cases b; cases c) auto

lemma first_tag_sortable:
  "sortable a \<Longrightarrow> first_tag a = (if tags a = [] then [] else hd (tags a))"
  by (cases "tags a") (auto simp: first_tag_def sortable_def)

lemma lower_first_tag_empty:
  "lowercase_keeps_empty P \<Longrightarrow> sortable a \<Longrightarrow>
     (toLowerCase P (first_tag a) = []) = (tags a = [])"
  by (cases "tags a") (auto simp: first_tag_def sortable_def lowercase_keeps_empty_def)

lemma SortCompare_sign_of_int:
  "(SortCompare_sign (Num (of_int c)) \<le> 0) = (c \<le> 0)"
  by auto

lemma compareTasks_ordered:
  assumes "lowercase_keeps_empty P" "sortable a" "sortable b"
  shows "(SortCompare_sign (compareTasks P mode a b) \<le> 0) = ordered_before P mode a b"
proof (cases mode)
  case ByCreatedAt
  then show ?thesis
    using assms by (simp add: compareTasks_def ordered_before_def sign_minus_le sortable_def)
next
  case ByTag
  have na: "numeric (createdAt a)" and nb: "numeric (createdAt b)"
    using assms by (simp_all add: sortable_def)
  have ea: "(toLowerCase P (first_tag a) = []) = (tags a = [])"
    and eb: "(toLowerCase P (first_tag b) = []) = (tags b = [])"
    using assms by (simp_all add: lower_first_tag_empty)
  show ?thesis
  proof (cases "tags a = []")
    case True
    then show ?thesis
      using ByTag ea eb na nb
      by (simp add: compareTasks_def ordered_before_def Let_def sign_minus_le)
  next
    case False
    note a = this
    show ?thesis
    proof (cases "tags b = []")
      case True
      then show ?thesis
        using ByTag ea eb a by (simp add: compareTasks_def ordered_before_def Let_def)
    next
      case False
      have fa: "first_tag a = hd (tags a)" and fb: "first_tag b = hd (tags b)"
        using assms a False by (simp_all add: first_tag_sortable)
      show ?thesis
        using ByTag ea eb a False na nb
        by (auto simp: compareTasks_def ordered_before_def Let_def sign_minus_le fa fb
                  SortCompare_sign_of_int simp del: SortCompare_sign.simps)
    qed
  qed
qed

lemma collation_flip:
  "collation_consistent P \<Longrightarrow> \<not> localeCompare P x y \<le> 0 \<Longrightarrow> localeCompare P y x < 0"
proof -
  assume c: "collation_consistent P" and n: "\<not> localeCompare P x y \<le> 0"
  have "sgn (localeCompare P y x) = - sgn (localeCompare P x y)"
    using c unfolding collation_consistent_def by blast
  then show ?thesis using n unfolding sgn_if by (auto split: if_splits)
qed

lemma collation_zero_flip:
  "collation_consistent P \<Longrightarrow> localeCompare P x y = 0 \<Longrightarrow> localeCompare P y x = 0"
proof -
  assume c: "collation_consistent P" and n: "localeCompare P x y = 0"
  have "sgn (localeCompare P y x) = - sgn (localeCompare P x y)"
    using c unfolding collation_consistent_def by blast
  then show ?thesis using n unfolding sgn_if by (auto split: if_splits)
qed

lemma collation_neg_flip:
  "collation_consistent P \<Longrightarrow> localeCompare P x y < 0 \<Longrightarrow> \<not> localeCompare P y x \<le> 0"
proof -
  assume c: "collation_consistent P" and n: "localeCompare P x y < 0"
  have "sgn (localeCompare P y x) = - sgn (localeCompare P x y)"
    using c unfolding collation_consistent_def by blast
  then show ?thesis using n unfolding sgn_if by (auto split: if_splits)
qed

lemma collation_trans:
  "collation_consistent P \<Longrightarrow> localeCompare P x y \<le> 0 \<Longrightarrow> localeCompare P y z \<le> 0
     \<Longrightarrow> localeCompare P x z \<le> 0"
  unfolding collation_consistent_def by blast

lemma ordered_before_total:
  assumes "collation_consistent P" "sortable a" "sortable b" "\<not> ordered_before P mode a b"
  shows "ordered_before P mode b a"
proof -
  have na: "numeric (createdAt a)" and nb: "numeric (createdAt b)"
    using assms by (simp_all add: sortable_def)
  show ?thesis
  proof (cases mode)
    case ByCreatedAt
    then show ?thesis
      using assms(4) na nb by (auto simp: ordered_before_def dest: num_le_total)
  next
    case ByTag
    show ?thesis
    proof (cases "tags a = [] \<or> tags b = []")
      case True
      then show ?thesis
        using assms(4) ByTag na nb
        by (auto simp: ordered_before_def dest: num_le_total split: if_splits)
    next
      case False
      let ?c = "localeCompare P (toLowerCase P (hd (tags a))) (toLowerCase P (hd (tags b)))"
      let ?d = "localeCompare P (toLowerCase P (hd (tags b))) (toLowerCase P (hd (tags a)))"
      from assms(4) ByTag False
      have n: "\<not> ?c < 0" "?c = 0 \<Longrightarrow> \<not> num_le (createdAt a) (createdAt b)"
        by (auto simp: ordered_before_def Let_def)
      show ?thesis
      proof (cases "?c = 0")
        case True
        then have "?d = 0" using assms(1) by (rule collation_zero_flip [rotated])
        moreover have "num_le (createdAt b) (createdAt a)"
          using n(2) True na nb by (auto dest: num_le_total)
        ultimately show ?thesis
          using ByTag False by (simp add: ordered_before_def Let_def)
      next
        case c: False
        with n(1) have "\<not> ?c \<le> 0" by simp
        then have "?d < 0" using assms(1) by (rule collation_flip [rotated])
        then show ?thesis
          using ByTag False by (simp add: ordered_before_def Let_def)
      qed
    qed
  qed
qed

lemma ordered_before_trans:
  assumes cc: "collation_consistent P"
    and ab: "ordered_before P mode a b" and bc: "ordered_before P mode b c"
  shows "ordered_before P mode a c"
proof (cases mode)
  case ByCreatedAt
  then show ?thesis
    using ab bc by (auto simp: ordered_before_def intro: num_le_trans)
next
  case ByTag
  show ?thesis
  proof (cases "tags a = []")
    case True
    with ab ByTag have b: "tags b = []" and lab: "num_le (createdAt a) (createdAt b)"
      by (auto simp: ordered_before_def split: if_splits)
    with bc ByTag have c: "tags c = []" and lbc: "num_le (createdAt b) (createdAt c)"
      by (auto simp: ordered_before_def split: if_splits)
    show ?thesis
      using True c ByTag num_le_trans [OF lab lbc] by (simp add: ordered_before_def)
  next
    case a: False
    show ?thesis
    proof (cases "tags c = []")
      case True
      then show ?thesis using a ByTag by (simp add: ordered_before_def)
    next
      case c: False
      have b: "tags b \<noteq> []"
        using bc ByTag c by (auto simp: ordered_before_def split: if_splits)
      let ?ka = "toLowerCase P (hd (tags a))"
      let ?kb = "toLowerCase P (hd (tags b))"
      let ?kc = "toLowerCase P (hd (tags c))"
      have ab': "localeCompare P ?ka ?kb < 0
                 \<or> (localeCompare P ?ka ?kb = 0 \<and> num_le (createdAt a) (createdAt b))"
        using ab ByTag a b by (simp add: ordered_before_def Let_def)
      have bc': "localeCompare P ?kb ?kc < 0
                 \<or> (localeCompare P ?kb ?kc = 0 \<and> num_le (createdAt b) (createdAt c))"
        using bc ByTag b c by (simp add: ordered_before_def Let_def)
      have le_ab: "localeCompare P ?ka ?kb \<le> 0" using ab' by auto
      have le_bc: "localeCompare P ?kb ?kc \<le> 0" using bc' by auto
      have le_ac: "localeCompare P ?ka ?kc \<le> 0"
        using cc le_ab le_bc by (rule collation_trans)
      have goal: "localeCompare P ?ka ?kc < 0
                 \<or> (localeCompare P ?ka ?kc = 0 \<and> num_le (createdAt a) (createdAt c))"
      proof (cases "localeCompare P ?ka ?kc = 0")
        case False
        with le_ac show ?thesis by simp
      next
        case True
        then have ca: "localeCompare P ?kc ?ka \<le> 0"
          using collation_zero_flip [OF cc True] by simp
        have ba: "localeCompare P ?kb ?ka \<le> 0"
          using cc le_bc ca by (rule collation_trans)
        have cb: "localeCompare P ?kc ?kb \<le> 0"
          using cc ca le_ab by (rule collation_trans)
        have "\<not> localeCompare P ?ka ?kb < 0"
          using collation_neg_flip [OF cc] ba by blast
        then have zab: "localeCompare P ?ka ?kb = 0"
          using le_ab by linarith
        have "\<not> localeCompare P ?kb ?kc < 0"
          using collation_neg_flip [OF cc] cb by blast
        then have zbc: "localeCompare P ?kb ?kc = 0"
          using le_bc by linarith
        have "num_le (createdAt a) (createdAt c)"
          using ab' bc' zab zbc by (auto intro: num_le_trans)
        with True show ?thesis by simp
      qed
      show ?thesis
        using goal ByTag a c by (simp add: ordered_before_def Let_def)
    qed
  qed
qed

subsection \<open>What the page shows\<close>

lemma renderTasks_displayed:
  "displayed (renderTasks P s) =
     Array_sort (compareTasks P (sortMode s))
       (case activeTagFilter s of
          None \<Rightarrow> the_tasks s
        | Some f \<Rightarrow> filter (has_tag P f) (the_tasks s))"
  by (cases "activeTagFilter s")
     (auto simp: renderTasks_def displayed_def alloc_def Let_def updateTaskCount_def the_tasks_def
           split: prod.split)

lemma has_tag_iff: "has_tag P f = (\<lambda>t. \<exists>tag \<in> set (tags t). toLowerCase P tag = f)"
  by (rule ext) (simp add: has_tag_def list_ex_iff)

lemma renderTasks_displayed_candidates:
  "displayed (renderTasks P s) = Array_sort (compareTasks P (sortMode s)) (candidates P s)"
  by (simp add: renderTasks_displayed candidates_def has_tag_iff split: option.split)

lemma renderTasks_empty_state:
  "candidates P s = [] \<Longrightarrow>
     task_list (elements (renderTasks P s)) =
       EmptyState (if activeTagFilter s \<noteq> None \<and> activeTagFilter s \<noteq> Some []
                      \<and> activeTagLabel s \<noteq> []
                   then filter_message (activeTagLabel s) else nothing_message)"
  by (cases "activeTagFilter s")
     (auto simp: renderTasks_def candidates_def alloc_def Let_def updateTaskCount_def
                 the_tasks_def has_tag_iff split: prod.split)

lemma filter_message_distinct: "filter_message l \<noteq> nothing_message"
  by (simp add: filter_message_def nothing_message_def str_def)


subsection \<open>The host of the examples\<close>

lemma compare_units_flip: "compare_units b a = - compare_units a b"
  by (induction a b rule: compare_units.induct) auto

lemma compare_units_trans:
  "compare_units a b \<le> 0 \<Longrightarrow> compare_units b c \<le> 0 \<Longrightarrow> compare_units a c \<le> 0"
proof (induction a arbitrary: b c)
  case Nil
  then show ?case by (cases c) simp_all
next
  case (Cons x xs)
  show ?case
  proof (cases b)
    case Nil
    with Cons.prems show ?thesis by simp
  next
    case b: (Cons y ys)
    show ?thesis
    proof (cases c)
      case Nil
      with Cons.prems b show ?thesis by simp
    next
      case c: (Cons z zs)
      have xy: "x \<le> y" using Cons.prems(1) b by (auto split: if_splits)
      have yz: "y \<le> z" using Cons.prems(2) b c by (auto split: if_splits)
      show ?thesis
      proof (cases "x < z")
        case True
        then show ?thesis using c by simp
      next
        case False
        with xy yz have e: "x = y" "y = z" by auto
        have "compare_units xs ys \<le> 0" using Cons.prems(1) b e by simp
        moreover have "compare_units ys zs \<le> 0" using Cons.prems(2) b c e by simp
        ultimately have "compare_units xs zs \<le> 0" by (rule Cons.IH)
        then show ?thesis using c e by simp
      qed
    qed
  qed
qed

lemma ascii_host_collation: "collation_consistent ascii_host"
  unfolding collation_consistent_def
proof (intro conjI allI impI)
  fix a b
  show "sgn (localeCompare ascii_host a b) = - sgn (localeCompare ascii_host b a)"
    using compare_units_flip [of a b] by (simp add: ascii_host_def)
next
  fix a b c
  assume "localeCompare ascii_host a b \<le> 0 \<and> localeCompare ascii_host b c \<le> 0"
  then show "localeCompare ascii_host a c \<le> 0"
    using compare_units_trans [of a b c] by (simp add: ascii_host_def)
qed

lemma ascii_host_lowercase: "lowercase_keeps_empty ascii_host"
  by (simp add: lowercase_keeps_empty_def ascii_host_def ascii_lower_def)

lemma example_state_fields [simp]:
  "sortMode (example_state ts st m) = m"
  "activeTagFilter (example_state ts st m) = None"
  "activeTagLabel (example_state ts st m) = []"
  "storage (example_state ts st m) = st"
  "env (example_state ts st m) = example_env"
  "tick (example_state ts st m) = 0"
  by (simp_all add: example_state_def assign_tasks_def alloc_def initial_state_def)

lemma by_time_example: "displayed (renderTasks ascii_host (example_state by_time_tasks (store_of None) ByCreatedAt))
   = [example_task ''y'' False (Num 1) [], example_task ''z'' False (Num 2) [], example_task ''x'' False (Num 3) []]"
  by (simp add: renderTasks_displayed by_time_tasks_def example_task_def compareTasks_def)

lemma by_tag_example: "displayed (renderTasks ascii_host (example_state by_tag_tasks (store_of None) ByTag))
   = [example_task ''z'' False (Num 5) [''a''], example_task ''x'' False (Num 5) [''b''], example_task ''y'' False (Num 5) []]"
  by (simp add: renderTasks_displayed by_tag_tasks_def
        example_task_def compareTasks_def 
        first_tag_def ascii_host_def ascii_lower_def str_def Let_def)

subsection \<open>The order of the displayed tasks\<close>

text \<open>
  C2, as the code has it. On a host whose collation is a consistent comparator and whose lower-casing keeps
  non-empty strings non-empty, and for tasks whose creation times are numbers and whose tags
  are non-empty strings, the page shows the tasks that pass the filter, each as often as the
  collection has it, in the order of the specification: by creation time, oldest first; or
  by tag, the untagged tasks last and by creation time among themselves, the tagged ones by
  the collation of their lower-cased first tags and, where that is a tie, by creation time.
\<close>

theorem displayed_order:
  assumes "lowercase_keeps_empty P" and "collation_consistent P"
    and "list_all sortable (candidates P s)"
  shows "sorted_wrt (ordered_before P (sortMode s)) (displayed (renderTasks P s))
         \<and> mset (displayed (renderTasks P s)) = mset (candidates P s)"
proof -
  let ?A = "{t. sortable t}"
  let ?cmp = "compareTasks P (sortMode s)"
  have sub: "set (candidates P s) \<subseteq> ?A"
    using assms(3) by (auto simp: list_all_iff)
  have "sorted_wrt (ordered_before P (sortMode s)) (Array_sort ?cmp (candidates P s))"
  proof (rule sorted_wrt_Array_sort [where A = ?A])
    fix a b assume "a \<in> ?A" "b \<in> ?A" "\<not> SortCompare_sign (?cmp a b) \<le> 0"
    then show "ordered_before P (sortMode s) b a"
      using assms(1,2) by (simp add: compareTasks_ordered ordered_before_total)
  next
    fix a b assume "a \<in> ?A" "b \<in> ?A" "SortCompare_sign (?cmp a b) \<le> 0"
    then show "ordered_before P (sortMode s) a b"
      using assms(1) by (simp add: compareTasks_ordered)
  next
    fix a b c
    assume "ordered_before P (sortMode s) a b" "ordered_before P (sortMode s) b c"
    then show "ordered_before P (sortMode s) a c"
      using assms(2) by (blast intro: ordered_before_trans)
  next
    show "set (candidates P s) \<subseteq> ?A" by (rule sub)
  qed
  then show ?thesis
    by (simp add: renderTasks_displayed_candidates mset_Array_sort)
qed

text \<open>
  The two examples of the specification: creation times 3, 1, 2 come out as 1, 2, 3; first
  tags "b", none, "a" at equal creation times come out as "a", "b", untagged.
\<close>

theorem displayed_order_witness:
  "lowercase_keeps_empty ascii_host \<and> collation_consistent ascii_host
   \<and> list_all sortable (candidates ascii_host (example_state by_time_tasks (store_of None) ByCreatedAt))
   \<and> displayed (renderTasks ascii_host (example_state by_time_tasks (store_of None) ByCreatedAt))
       = [example_task ''y'' False (Num 1) [], example_task ''z'' False (Num 2) [],
          example_task ''x'' False (Num 3) []]
   \<and> sorted_wrt (ordered_before ascii_host ByCreatedAt)
        [example_task ''y'' False (Num 1) [], example_task ''z'' False (Num 2) [],
         example_task ''x'' False (Num 3) []]
   \<and> list_all sortable (candidates ascii_host (example_state by_tag_tasks (store_of None) ByTag))
   \<and> displayed (renderTasks ascii_host (example_state by_tag_tasks (store_of None) ByTag))
       = [example_task ''z'' False (Num 5) [''a''], example_task ''x'' False (Num 5) [''b''],
          example_task ''y'' False (Num 5) []]
   \<and> sorted_wrt (ordered_before ascii_host ByTag)
        [example_task ''z'' False (Num 5) [''a''], example_task ''x'' False (Num 5) [''b''],
         example_task ''y'' False (Num 5) []]"
proof -
  let ?s1 = "example_state by_time_tasks (store_of None) ByCreatedAt"
  let ?s2 = "example_state by_tag_tasks (store_of None) ByTag"
  have c1: "list_all sortable (candidates ascii_host ?s1)"
    by (simp add: candidates_def by_time_tasks_def example_task_def sortable_def numeric_def)
  have c2: "list_all sortable (candidates ascii_host ?s2)"
    by (simp add: candidates_def by_tag_tasks_def example_task_def sortable_def numeric_def)
  show ?thesis
    using displayed_order [OF ascii_host_lowercase ascii_host_collation c1]
          displayed_order [OF ascii_host_lowercase ascii_host_collation c2]
          ascii_host_lowercase ascii_host_collation c1 c2
    by (simp add: by_time_example by_tag_example)
qed

subsection \<open>The filter\<close>

text \<open>
  C4. Without a filter the page shows every task of the collection. With the filter set
  from a label, it shows exactly the tasks with a tag whose lower-case form is the
  lower-case form of the label. When the filter was set from a non-empty label and no task
  passes, the list holds the empty state with the message that names the label, which is
  never the message of the empty state without a filter.
\<close>

theorem filter_candidates:
  assumes "lowercase_keeps_empty P"
  shows "(activeTagFilter s = None \<longrightarrow>
            mset (displayed (renderTasks P s)) = mset (the_tasks s))
       \<and> (activeTagFilter s = Some (toLowerCase P label) \<longrightarrow>
            mset (displayed (renderTasks P s)) =
              mset (filter (\<lambda>t. \<exists>tag \<in> set (tags t). toLowerCase P tag = toLowerCase P label)
                           (the_tasks s)))
       \<and> (activeTagFilter s = Some (toLowerCase P label) \<and> activeTagLabel s = label
            \<and> label \<noteq> []
            \<and> filter (\<lambda>t. \<exists>tag \<in> set (tags t). toLowerCase P tag = toLowerCase P label)
                      (the_tasks s) = [] \<longrightarrow>
            task_list (elements (renderTasks P s)) = EmptyState (filter_message label)
            \<and> filter_message label \<noteq> nothing_message)
       \<and> (activeTagFilter s = None \<and> the_tasks s = [] \<longrightarrow>
            task_list (elements (renderTasks P s)) = EmptyState nothing_message)"
proof (intro conjI impI)
  assume "activeTagFilter s = None"
  then show "mset (displayed (renderTasks P s)) = mset (the_tasks s)"
    by (simp add: renderTasks_displayed_candidates mset_Array_sort candidates_def)
next
  assume "activeTagFilter s = Some (toLowerCase P label)"
  then show "mset (displayed (renderTasks P s)) =
              mset (filter (\<lambda>t. \<exists>tag \<in> set (tags t). toLowerCase P tag = toLowerCase P label)
                           (the_tasks s))"
    by (simp add: renderTasks_displayed_candidates mset_Array_sort candidates_def)
next
  assume a: "activeTagFilter s = Some (toLowerCase P label) \<and> activeTagLabel s = label
            \<and> label \<noteq> []
            \<and> filter (\<lambda>t. \<exists>tag \<in> set (tags t). toLowerCase P tag = toLowerCase P label)
                      (the_tasks s) = []"
  then have c: "candidates P s = []"
    by (simp add: candidates_def)
  have "toLowerCase P label \<noteq> []"
    using assms a by (simp add: lowercase_keeps_empty_def)
  then show "task_list (elements (renderTasks P s)) = EmptyState (filter_message label)"
    using a by (simp add: renderTasks_empty_state [OF c])
next
  show "filter_message label \<noteq> nothing_message"
    by (rule filter_message_distinct)
next
  assume a: "activeTagFilter s = None \<and> the_tasks s = []"
  then have c: "candidates P s = []"
    by (simp add: candidates_def)
  show "task_list (elements (renderTasks P s)) = EmptyState nothing_message"
    using a by (simp add: renderTasks_empty_state [OF c])
qed

lemma renderTasks_filter [simp]:
  "activeTagFilter (renderTasks P s) = activeTagFilter s"
  "activeTagLabel (renderTasks P s) = activeTagLabel s"
  "sortMode (renderTasks P s) = sortMode s"
  by (simp_all add: renderTasks_def alloc_def Let_def updateTaskCount_def
        split: option.split prod.split)

lemma setActiveTagFilter_fields:
  "l \<noteq> [] \<Longrightarrow> activeTagFilter (setActiveTagFilter P (Some l) s) = Some (toLowerCase P l)"
  "l \<noteq> [] \<Longrightarrow> activeTagLabel (setActiveTagFilter P (Some l) s) = l"
  "activeTagFilter (setActiveTagFilter P None s) = None"
  "activeTagLabel (setActiveTagFilter P None s) = []"
  by (simp_all add: setActiveTagFilter_def Let_def)

lemma setActiveTagFilter_the_tasks:
  "tasks s < next_addr s \<Longrightarrow> the_tasks (setActiveTagFilter P x s) = the_tasks s"
  by (simp add: setActiveTagFilter_def Let_def renderTasks_tasks renderTasks_heap the_tasks_def)

lemma filtered_state_fields [simp]:
  "name \<noteq> [] \<Longrightarrow> the_tasks (filtered_state name) = home_tasks"
  "name \<noteq> [] \<Longrightarrow>
     activeTagFilter (filtered_state name) = Some (toLowerCase ascii_host (str name))"
  "name \<noteq> [] \<Longrightarrow> activeTagLabel (filtered_state name) = str name"
  by (simp_all add: filtered_state_def setActiveTagFilter_fields setActiveTagFilter_the_tasks)

lemma lower_Home: "toLowerCase ascii_host (str ''Home'') = str ''home''"
  by (simp add: ascii_host_def ascii_lower_def str_def)

text \<open>
  The label "Home" shows the task tagged "home"; the label "work" matches nothing and gives
  the message that names it.
\<close>

theorem filter_candidates_witness:
  "lowercase_keeps_empty ascii_host
   \<and> toLowerCase ascii_host (str ''Home'') = str ''home''
   \<and> mset (displayed (renderTasks ascii_host (filtered_state ''Home'')))
       = mset [example_task ''milk'' False (Num 1) [''home'']]
   \<and> task_list (elements (renderTasks ascii_host (filtered_state ''work'')))
       = EmptyState (filter_message (str ''work''))
   \<and> mset (displayed (renderTasks ascii_host (example_state home_tasks (store_of None) ByCreatedAt)))
       = mset home_tasks
   \<and> task_list (elements (renderTasks ascii_host (example_state [] (store_of None) ByCreatedAt)))
       = EmptyState nothing_message"
proof -
  have a: "filter (\<lambda>t. \<exists>tag \<in> set (tags t). toLowerCase ascii_host tag = toLowerCase ascii_host (str ''Home''))
             home_tasks = [example_task ''milk'' False (Num 1) [''home'']]"
    by (simp add: home_tasks_def example_task_def ascii_host_def ascii_lower_def str_def)
  have b: "filter (\<lambda>t. \<exists>tag \<in> set (tags t). toLowerCase ascii_host tag = toLowerCase ascii_host (str ''work''))
             home_tasks = []"
    by (simp add: home_tasks_def example_task_def ascii_host_def ascii_lower_def str_def)
  show ?thesis
    using filter_candidates [OF ascii_host_lowercase, of "filtered_state ''Home''" "str ''Home''"]
          filter_candidates [OF ascii_host_lowercase, of "filtered_state ''work''" "str ''work''"]
          filter_candidates [OF ascii_host_lowercase,
            of "example_state home_tasks (store_of None) ByCreatedAt" "str ''Home''"]
          filter_candidates [OF ascii_host_lowercase,
            of "example_state [] (store_of None) ByCreatedAt" "str ''Home''"]
          ascii_host_lowercase lower_Home arg_cong [OF a, of mset] b
    by simp
qed

subsection \<open>Adding a task with a title\<close>

lemma parseTags_eq:
  "parseTags input = filter (\<lambda>p. p \<noteq> []) (map trim (String_split 0x2C input))"
  by (simp add: parseTags_def trim_def)

lemma String_split_pieces: "p \<in> set (String_split c s) \<Longrightarrow> c \<notin> set p"
  by (induction s arbitrary: p) (auto split: if_splits list.splits)

lemma String_split_length: "length (String_split c s) = Suc (count_list s c)"
  by (induction s) (auto split: list.splits)

lemma String_split_concat:
  "concat (map (\<lambda>p. p @ [c]) (String_split c s)) = s @ [c]"
  by (induction s) (auto split: list.splits)

lemma String_split_not_Nil: "String_split c s \<noteq> []"
  by (induction s) (auto split: list.splits)

lemma parseTags_example:
  "parseTags (str ''home, errands, ,home'') = [str ''home'', str ''errands'', str ''home'']"
  by (simp add: parseTags_def trim_def str_def isWhiteSpace_def)

lemma addTask_the_tasks:
  assumes "trim title_text \<noteq> []" and "tasks s < next_addr s"
  shows "the_tasks (addTask P title_text tagsInput s) =
           the_tasks s @
           [\<lparr>id_t = fst (new_id P (env s) (tick s)), title = trim title_text, completed = False,
             createdAt = Num (of_int (Date_now (env s) (snd (new_id P (env s) (tick s))))),
             tags = parseTags tagsInput\<rparr>]"
proof -
  obtain i k where n: "new_id P (env s) (tick s) = (i, k)"
    by (cases "new_id P (env s) (tick s)")
  let ?t = "\<lparr>id_t = i, title = trim title_text, completed = False,
             createdAt = Num (of_int (Date_now (env s) k)), tags = parseTags tagsInput\<rparr>"
  let ?s2 = "s\<lparr>tick := Suc k, heap := (heap s)(tasks s := heap s (tasks s) @ [?t])\<rparr>"
  have "addTask P title_text tagsInput s = renderTasks P (saveTasks ?s2)"
    using assms(1) n by (simp add: addTask_def Let_def)
  moreover have "the_tasks (renderTasks P (saveTasks ?s2)) = the_tasks ?s2"
    using assms(2) by (simp add: renderTasks_the_tasks)
  moreover have "the_tasks ?s2 = the_tasks s @ [?t]"
    by (simp add: the_tasks_def)
  ultimately show ?thesis
    using n by simp
qed

text \<open>
  C8. With a title that does not trim to the empty string, \<open>addTask\<close> appends one task to
  the end of the collection: its title is the trimmed title, it is not completed, and its
  tags are the pieces of the tags text between the commas, trimmed, without the empty ones,
  in their order and with their duplicates. The hypothesis on the heap says that the array
  of \<open>tasks\<close> has been allocated.
\<close>

theorem addTask_appends:
  assumes "trim title_text \<noteq> []" and "tasks s < next_addr s"
  shows "the_tasks (addTask P title_text tagsInput s) =
           the_tasks s @
           [\<lparr>id_t = fst (new_id P (env s) (tick s)), title = trim title_text, completed = False,
             createdAt = Num (of_int (Date_now (env s) (snd (new_id P (env s) (tick s))))),
             tags = filter (\<lambda>p. p \<noteq> []) (map trim (String_split 0x2C tagsInput))\<rparr>]
         \<and> parseTags (str ''home, errands, ,home'') = [str ''home'', str ''errands'', str ''home'']"
  using addTask_the_tasks [OF assms] parseTags_eq parseTags_example by simp

theorem addTask_appends_witness:
  "trim (str ''Buy milk'') \<noteq> []
   \<and> tasks (example_state [] (store_of None) ByCreatedAt)
       < next_addr (example_state [] (store_of None) ByCreatedAt)
   \<and> the_tasks (addTask ascii_host (str ''Buy milk'') (str ''home, errands, ,home'')
                  (example_state [] (store_of None) ByCreatedAt))
       = [\<lparr>id_t = str ''uuid-0'', title = str ''Buy milk'', completed = False,
           createdAt = Num 1700000000001,
           tags = [str ''home'', str ''errands'', str ''home'']\<rparr>]"
proof -
  have a: "trim (str ''Buy milk'') = str ''Buy milk''"
    by (simp add: trim_def str_def isWhiteSpace_def)
  have b: "trim (str ''Buy milk'') \<noteq> []"
    unfolding a by simp
  have c: "new_id ascii_host example_env 0 = (str ''uuid-0'', 1)"
    by (simp add: new_id_def example_env_def nat_to_string_def digits.simps str_append)
  have d: "Date_now example_env (Suc 0) = 1700000000001"
    by (simp add: example_env_def)
  have al: "tasks (example_state [] (store_of None) ByCreatedAt)
              < next_addr (example_state [] (store_of None) ByCreatedAt)"
    by simp
  have e: "filter (\<lambda>p. p \<noteq> []) (map trim (String_split 0x2C (str ''home, errands, ,home'')))
           = [str ''home'', str ''errands'', str ''home'']"
    by (simp add: trim_def str_def isWhiteSpace_def)
  show ?thesis
    using addTask_appends [OF b al,
            where P = ascii_host and tagsInput = "str ''home, errands, ,home''"]
    by (simp add: a c d e)
qed

subsection \<open>The collection after a render, on an example\<close>

theorem renderTasks_keeps_collection_witness:
  "tasks (example_state by_time_tasks (store_of None) ByCreatedAt)
     < next_addr (example_state by_time_tasks (store_of None) ByCreatedAt)
   \<and> the_tasks (renderTasks ascii_host (example_state by_time_tasks (store_of None) ByCreatedAt))
       = by_time_tasks
   \<and> displayed (renderTasks ascii_host (example_state by_time_tasks (store_of None) ByCreatedAt))
       = [example_task ''y'' False (Num 1) [], example_task ''z'' False (Num 2) [],
          example_task ''x'' False (Num 3) []]"
  using renderTasks_keeps_collection
          [of "example_state by_time_tasks (store_of None) ByCreatedAt" ascii_host]
  by (simp add: by_time_example)

subsection \<open>Loading what was saved\<close>

lemma Get_task_json:
  "Get (task_json t) (str ''id'') = Inr (Some (JStr (id_t t)))"
  "Get (task_json t) (str ''title'') = Inr (Some (JStr (title t)))"
  "Get (task_json t) (str ''completed'') = Inr (Some (JBool (completed t)))"
  "Get (task_json t) (str ''createdAt'') =
     Inr (Some (case createdAt t of Num x \<Rightarrow> JNum (Num x) | _ \<Rightarrow> JNull))"
  "Get (task_json t) (str ''tags'') = Inr (Some (JArr (map JStr (tags t))))"
  by (simp_all add: task_json_def)

lemma trim_strings_JStr: "trim_strings P (map JStr gs) = Inr (map trim gs)"
  by (induction gs) simp_all

lemma trimmed_tags:
  "list_all (\<lambda>g. g \<noteq> [] \<and> trim g = g) gs \<Longrightarrow> filter (\<lambda>s. s \<noteq> []) (map trim gs) = gs"
  by (induction gs) simp_all

lemma hydrate_task_json:
  assumes "well_formed t" and "finite_number (createdAt t)"
  shows "hydrate P e (task_json t) k = (Inr t, k)"
proof -
  obtain x where x: "createdAt t = Num x"
    using assms(2) by (cases "createdAt t") (simp_all add: finite_number_def)
  have i: "hydrate_id P e (task_json t) k = (Inr (id_t t), k)"
    by (simp add: hydrate_id_def Get_task_json nullish_def)
  have ti: "hydrate_title P (task_json t) = Inr (title t)"
    using assms(1) by (simp add: hydrate_title_def Get_task_json nullish_def well_formed_def)
  have c: "hydrate_completed (task_json t) = Inr (completed t)"
    by (simp add: hydrate_completed_def Get_task_json)
  have ca: "hydrate_createdAt P e (task_json t) k = (Inr (createdAt t), k)"
    by (simp add: hydrate_createdAt_def Get_task_json nullish_def x)
  have tg: "hydrate_tags P (task_json t) = Inr (tags t)"
    using assms(1)
    by (simp add: hydrate_tags_def Get_task_json trim_strings_JStr trimmed_tags well_formed_def)
  show ?thesis
    by (simp add: hydrate_def i ti c ca tg)
qed

lemma hydrate_all_task_json:
  "list_all well_formed ts \<Longrightarrow> list_all (\<lambda>t. finite_number (createdAt t)) ts \<Longrightarrow>
     hydrate_all P e (map task_json ts) k = (Inr ts, k)"
  by (induction ts) (simp_all add: hydrate_task_json)

lemma storage_saveTasks:
  "accessible (storage s) \<Longrightarrow> writable (storage s) \<Longrightarrow>
     item (storage (saveTasks s)) = Some (JSON_stringify (the_tasks s))
     \<and> accessible (storage (saveTasks s))"
  by (simp add: saveTasks_def setItem_def Let_def)

lemma saveTasks_fields [simp]:
  "env (saveTasks s) = env s" "tick (saveTasks s) = tick s"
  by (simp_all add: saveTasks_def split: prod.split)

lemma loadTasks_stored_array:
  assumes "accessible (storage s)" and "item (storage s) = Some (Encoded (JArr rs))"
  shows "the_tasks (loadTasks P s) =
           (case fst (hydrate_all P (env s) rs (tick s)) of Inl err \<Rightarrow> [] | Inr ts \<Rightarrow> ts)"
proof (cases "hydrate_all P (env s) rs (tick s)")
  case (Pair r k)
  then show ?thesis
    using assms by (cases r) (simp_all add: loadTasks_def loadTasks_try_def getItem_def)
qed

lemma loadTasks_denied:
  "\<not> accessible (storage s) \<Longrightarrow> the_tasks (loadTasks P s) = []"
  by (simp add: loadTasks_def loadTasks_try_def getItem_def)

text \<open>
  C1, as the code has it. For a collection of well-formed tasks whose creation times are
  finite, on a store the page may use and that takes the write, \<open>saveTasks\<close> followed by
  \<open>loadTasks\<close> gives the same tasks with the same fields in the same order: in the same
  session, and in a new session that starts on the store the save left.
\<close>

theorem save_load_round_trip:
  assumes "list_all well_formed (the_tasks s)"
    and "list_all (\<lambda>t. finite_number (createdAt t)) (the_tasks s)"
    and "accessible (storage s)" and "writable (storage s)"
  shows "the_tasks (loadTasks P (saveTasks s)) = the_tasks s
         \<and> the_tasks (loadTasks P (initial_state (storage (saveTasks s)) d e)) = the_tasks s"
proof -
  have st: "item (storage (saveTasks s)) = Some (Encoded (JArr (map task_json (the_tasks s))))"
    and ac: "accessible (storage (saveTasks s))"
    using storage_saveTasks [OF assms(3,4)] by (simp_all add: JSON_stringify_def)
  have a: "the_tasks (loadTasks P (saveTasks s)) = the_tasks s"
    using loadTasks_stored_array [OF ac st, of P]
    by (simp add: hydrate_all_task_json [OF assms(1,2)])
  let ?s0 = "initial_state (storage (saveTasks s)) d e"
  have st0: "item (storage ?s0) = Some (Encoded (JArr (map task_json (the_tasks s))))"
    and ac0: "accessible (storage ?s0)"
    using st ac by (simp_all add: initial_state_def)
  have b: "the_tasks (loadTasks P ?s0) = the_tasks s"
    using loadTasks_stored_array [OF ac0 st0, of P]
    by (simp add: hydrate_all_task_json [OF assms(1,2)])
  from a b show ?thesis by simp
qed

lemma well_formed_example:
  "numeric c \<Longrightarrow> well_formed (example_task ''a'' b c [])"
  by (simp add: well_formed_def example_task_def trim_def str_def isWhiteSpace_def)

lemma trim_letter: "trim (str ''a'') = str ''a''"
  by (simp add: trim_def str_def isWhiteSpace_def)

theorem save_load_round_trip_witness:
  "list_all well_formed three_tasks
   \<and> list_all (\<lambda>t. finite_number (createdAt t)) three_tasks
   \<and> accessible (store_of None) \<and> writable (store_of None)
   \<and> the_tasks (loadTasks ascii_host (saveTasks (example_state three_tasks (store_of None) ByCreatedAt)))
       = three_tasks
   \<and> the_tasks (loadTasks ascii_host
        (initial_state (storage (saveTasks (example_state three_tasks (store_of None) ByCreatedAt)))
           blank_page example_env))
       = three_tasks"
proof -
  let ?s = "example_state three_tasks (store_of None) ByCreatedAt"
  have w: "list_all well_formed (the_tasks ?s)"
    by (simp add: three_tasks_def well_formed_def example_task_def trim_def str_def
          isWhiteSpace_def numeric_def)
  have f: "list_all (\<lambda>t. finite_number (createdAt t)) (the_tasks ?s)"
    by (simp add: three_tasks_def example_task_def finite_number_def)
  have a: "accessible (storage ?s)" and b: "writable (storage ?s)"
    by (simp_all add: store_of_def)
  show ?thesis
    using save_load_round_trip [OF w f a b, of ascii_host blank_page example_env] w f a b
    by simp
qed

text \<open>
  C1 as the specification states it fails three times. A creation time of \<open>Infinity\<close> is
  numeric, is written as \<open>null\<close> and comes back as the time of loading. A write that
  the store refuses is dropped, so that loading gives what was stored before. A store the
  page may not use gives the empty collection.
\<close>

theorem round_trip_counterexample:
  "list_all well_formed (the_tasks infinite_time_state)
   \<and> the_tasks (loadTasks ascii_host (saveTasks infinite_time_state))
       \<noteq> the_tasks infinite_time_state
   \<and> list_all well_formed (the_tasks quota_state)
   \<and> the_tasks (loadTasks ascii_host (saveTasks quota_state)) \<noteq> the_tasks quota_state
   \<and> list_all well_formed (the_tasks denied_state)
   \<and> the_tasks (loadTasks ascii_host (saveTasks denied_state)) \<noteq> the_tasks denied_state"
proof -
  have w1: "list_all well_formed (the_tasks infinite_time_state)"
    by (simp add: infinite_time_state_def well_formed_example numeric_def)
  have w2: "list_all well_formed (the_tasks quota_state)"
    by (simp add: quota_state_def well_formed_example numeric_def)
  have w3: "list_all well_formed (the_tasks denied_state)"
    by (simp add: denied_state_def well_formed_example numeric_def)
  have s1: "accessible (storage (saveTasks infinite_time_state))"
    "item (storage (saveTasks infinite_time_state)) =
       Some (Encoded (JArr [task_json (example_task ''a'' False Infinity [])]))"
    using storage_saveTasks [of infinite_time_state]
    by (simp_all add: infinite_time_state_def store_of_def JSON_stringify_def)
  have h1: "hydrate ascii_host example_env (task_json (example_task ''a'' False Infinity [])) 0
            = (Inr (example_task ''a'' False (Num 1700000000000) []), Suc 0)"
    by (simp add: hydrate_def hydrate_id_def hydrate_title_def hydrate_completed_def
          hydrate_createdAt_def hydrate_tags_def Get_task_json nullish_def example_task_def
          example_env_def trim_letter)
  have l1: "the_tasks (loadTasks ascii_host (saveTasks infinite_time_state))
            = [example_task ''a'' False (Num 1700000000000) []]"
    unfolding loadTasks_stored_array [OF s1, of ascii_host]
    by (simp add: infinite_time_state_def h1)
  have c1: "the_tasks (loadTasks ascii_host (saveTasks infinite_time_state))
              \<noteq> the_tasks infinite_time_state"
    unfolding l1 by (simp add: infinite_time_state_def example_task_def)
  have s2: "accessible (storage (saveTasks quota_state))"
    "item (storage (saveTasks quota_state)) = Some (Encoded (JArr []))"
    by (simp_all add: quota_state_def saveTasks_def setItem_def store_of_def Let_def)
  have c2: "the_tasks (loadTasks ascii_host (saveTasks quota_state)) \<noteq> the_tasks quota_state"
    using loadTasks_stored_array [OF s2, of ascii_host]
    by (simp add: quota_state_def)
  have s3: "\<not> accessible (storage (saveTasks denied_state))"
    by (simp add: denied_state_def saveTasks_def setItem_def store_of_def Let_def)
  have c3: "the_tasks (loadTasks ascii_host (saveTasks denied_state)) \<noteq> the_tasks denied_state"
    using loadTasks_denied [OF s3, of ascii_host] by (simp add: denied_state_def)
  from w1 w2 w3 c1 c2 c3 show ?thesis by simp
qed

subsection \<open>Loading any stored array\<close>


lemma trim_Nil [simp]: "trim [] = []"
  by (simp add: trim_def)













text \<open>
  The fields of a loaded task are determined by its record and the count of host calls, so
  the collection loaded from a stored array is determined as well.
\<close>

lemma coerced_unique:
  assumes "coerced P e k r t" and "coerced P e k r u"
  shows "t = u"
proof -
  have i: "id_t t = id_t u"
    using assms by (auto simp: coerced_def split: if_splits)
  have ti: "title t = title u"
    using assms by (auto simp: coerced_def split: if_splits)
  have c: "completed t = completed u"
    using assms by (simp add: coerced_def)
  have ca: "createdAt t = createdAt u"
    using assms by (auto simp: coerced_def split: if_splits)
  have tg: "tags t = tags u"
  proof (cases "\<exists>vs. field r ''tags'' = Some (JArr vs)")
    case True
    then obtain vs where vs: "field r ''tags'' = Some (JArr vs)" by blast
    from assms(1) vs obtain ss where ss: "map (ToString P) vs = map Inr ss"
      "tags t = filter (\<lambda>g. g \<noteq> []) (map trim ss)"
      by (auto simp: coerced_def)
    from assms(2) vs obtain ss' where ss': "map (ToString P) vs = map Inr ss'"
      "tags u = filter (\<lambda>g. g \<noteq> []) (map trim ss')"
      by (auto simp: coerced_def)
    have "map Inr ss = (map Inr ss' :: (error + jsstring) list)"
      using ss(1) ss'(1) by simp
    then have "ss = ss'"
      by (simp add: inj_map_eq_map)
    then show ?thesis using ss(2) ss'(2) by simp
  next
    case False
    then have "tags t = []" "tags u = []"
      using assms by (auto simp: coerced_def split: option.splits json.splits)
    then show ?thesis by simp
  qed
  show ?thesis
    using i ti c ca tg by simp
qed

lemma coerced_in_turn_unique:
  "coerced_in_turn P e k rs ts \<Longrightarrow> coerced_in_turn P e k rs us \<Longrightarrow> ts = us"
proof (induction rs arbitrary: k ts us)
  case Nil
  then show ?case by simp
next
  case (Cons r rs)
  from Cons.prems(1) obtain t ts' where ts: "ts = t # ts'" "coerced P e k r t"
    "coerced_in_turn P e (k + host_calls r) rs ts'"
    by (auto split: list.splits)
  from Cons.prems(2) obtain u us' where us: "us = u # us'" "coerced P e k r u"
    "coerced_in_turn P e (k + host_calls r) rs us'"
    by (auto split: list.splits)
  have "t = u" using ts(2) us(2) by (rule coerced_unique)
  moreover have "ts' = us'" using ts(3) us(3) by (rule Cons.IH)
  ultimately show ?case using ts(1) us(1) by simp
qed


text \<open>
  A record is coerced at the count that the calls of the records before it add up to, and
  the calls of an earlier record come before those of a later one. So on a host whose
  \<open>randomUUID\<close> never repeats an answer, no two records without an \<open>id\<close> are given the
  same one.
\<close>

lemma coerced_in_turn_length: "coerced_in_turn P e k rs ts \<Longrightarrow> length ts = length rs"
  by (induction rs arbitrary: k ts) (auto split: list.splits)

lemma coerced_in_turn_nth:
  "coerced_in_turn P e k rs ts \<Longrightarrow> i < length rs \<Longrightarrow>
     coerced P e (k + sum_list (map host_calls (take i rs))) (rs ! i) (ts ! i)"
proof (induction rs arbitrary: k ts i)
  case Nil
  then show ?case by simp
next
  case (Cons r rs)
  from Cons.prems(1) obtain t ts' where ts: "ts = t # ts'" and t: "coerced P e k r t"
    and ts': "coerced_in_turn P e (k + host_calls r) rs ts'"
    by (auto split: list.splits)
  show ?case
  proof (cases i)
    case 0
    then show ?thesis using ts t by simp
  next
    case (Suc j)
    then have "j < length rs" using Cons.prems(2) by simp
    from Cons.IH [OF ts' this] show ?thesis
      using Suc ts by (simp add: add.assoc)
  qed
qed

lemma host_calls_in_turn:
  assumes "i < j" and "j \<le> length rs"
  shows "sum_list (map host_calls (take i rs)) + host_calls (rs ! i)
           \<le> sum_list (map host_calls (take j rs))"
proof -
  have i: "i < length rs" using assms by simp
  have "take j rs = take (Suc i) rs @ take (j - Suc i) (drop (Suc i) rs)"
    using assms(1) by (simp add: take_add [symmetric])
  moreover have "take (Suc i) rs = take i rs @ [rs ! i]"
    using i by (rule take_Suc_conv_app_nth)
  ultimately show ?thesis by simp
qed

lemma generated_ids_differ:
  assumes "coerced_in_turn P e k rs ts" and "i < j" and "j < length rs"
    and "nullish (field (rs ! i) ''id'')" and "nullish (field (rs ! j) ''id'')"
    and "randomUUID e = Some uuid" and "inj uuid"
  shows "id_t (ts ! i) \<noteq> id_t (ts ! j)"
proof -
  let ?k = "\<lambda>n. k + sum_list (map host_calls (take n rs))"
  have "i < length rs"
    using assms(2,3) by simp
  with assms(1) have i: "coerced P e (?k i) (rs ! i) (ts ! i)"
    by (rule coerced_in_turn_nth)
  have j: "coerced P e (?k j) (rs ! j) (ts ! j)"
    using assms(1,3) by (rule coerced_in_turn_nth)
  have "id_t (ts ! i) = uuid (?k i)"
    using i assms(4,6) by (simp add: coerced_def generated_id_def)
  moreover have "id_t (ts ! j) = uuid (?k j)"
    using j assms(5,6) by (simp add: coerced_def generated_id_def)
  moreover have "1 \<le> host_calls (rs ! i)"
    using assms(4) by (simp add: host_calls_def)
  then have "?k i < ?k j"
    using host_calls_in_turn [of i j rs] assms(2,3) by simp
  ultimately show ?thesis
    using assms(7) by (auto dest: injD)
qed


lemma loading_state_fields [simp]:
  "accessible (storage (loading_state raw))"
  "item (storage (loading_state raw)) = Some raw"
  "env (loading_state raw) = example_env"
  "tick (loading_state raw) = 0"
  "the_tasks (loading_state raw) = []"
  by (simp_all add: loading_state_def initial_state_def store_of_def the_tasks_def)








subsection \<open>Loading what is no array\<close>

text \<open>
  Where the stored string is missing, empty or decodes to a value that is no array,
  \<open>loadTasks\<close> changes nothing; where it is no JSON text, the collection is emptied.
\<close>

lemma loadTasks_unchanged:
  assumes "accessible (storage s)"
    and "item (storage s) = None \<or> item (storage s) = Some EmptyString
         \<or> (\<exists>v. item (storage s) = Some (Encoded v) \<and> \<not> decodes_to_sequence (Encoded v))"
  shows "loadTasks P s = s"
proof -
  consider "item (storage s) = None" | "item (storage s) = Some EmptyString"
    | v where "item (storage s) = Some (Encoded v)" "\<not> decodes_to_sequence (Encoded v)"
    using assms(2) by auto
  then show ?thesis
  proof cases
    case 1
    then show ?thesis
      using assms(1) by (simp add: loadTasks_def loadTasks_try_def getItem_def)
  next
    case 2
    then show ?thesis
      using assms(1) by (simp add: loadTasks_def loadTasks_try_def getItem_def)
  next
    case 3
    then show ?thesis
      using assms(1)
      by (cases v)
         (simp_all add: loadTasks_def loadTasks_try_def getItem_def decodes_to_sequence_def)
  qed
qed

lemma loadTasks_corrupt:
  "item (storage s) = Some Malformed \<Longrightarrow> the_tasks (loadTasks P s) = []"
  by (simp add: loadTasks_def loadTasks_try_def getItem_def)

lemma loadTasks_allocated:
  "tasks s < next_addr s \<Longrightarrow> tasks (loadTasks P s) < next_addr (loadTasks P s)"
  by (auto simp: loadTasks_def loadTasks_try_def
           split: sum.split prod.split option.split json.split stored.split)


lemma loadTasks_filter [simp]:
  "activeTagFilter (loadTasks P s) = activeTagFilter s"
  "activeTagLabel (loadTasks P s) = activeTagLabel s"
  by (auto simp: loadTasks_def loadTasks_try_def assign_tasks_def alloc_def
           split: sum.split prod.split option.split json.split stored.split)




subsection \<open>The order after loading a creation time that is no number\<close>

text \<open>
  No arrangement of two or more tasks is in the order of creation times when one of the
  times is \<open>NaN\<close>.
\<close>

lemma NaN_unordered:
  assumes "t \<in> set ys" and "createdAt t = NaN" and "2 \<le> length ys"
  shows "\<not> sorted_wrt (ordered_before P ByCreatedAt) ys"
proof
  assume s: "sorted_wrt (ordered_before P ByCreatedAt) ys"
  from assms(1) obtain as bs where ys: "ys = as @ t # bs"
    by (auto simp: in_set_conv_decomp)
  have o: "\<not> ordered_before P ByCreatedAt x t" "\<not> ordered_before P ByCreatedAt t x" for x
    using assms(2) by (cases "createdAt x"; simp add: ordered_before_def)+
  from assms(3) ys have "as \<noteq> [] \<or> bs \<noteq> []" by auto
  then show False
  proof
    assume "as \<noteq> []"
    then obtain x where "x \<in> set as" by (cases as) auto
    then have "ordered_before P ByCreatedAt x t"
      using s ys by (auto simp: sorted_wrt_append)
    then show False using o(1) by simp
  next
    assume "bs \<noteq> []"
    then obtain x where "x \<in> set bs" by (cases bs) auto
    then have "ordered_before P ByCreatedAt t x"
      using s ys by (auto simp: sorted_wrt_append)
    then show False using o(2) by simp
  qed
qed

lemma hydrate_timed_record:
  "ToNumber ascii_host v = Inr n \<Longrightarrow> v \<noteq> JNull \<Longrightarrow> trim (str name) = str name \<Longrightarrow>
     hydrate ascii_host example_env (timed_record name v) k
       = (Inr (example_task name False n []), k)"
  by (simp add: hydrate_def hydrate_id_def hydrate_title_def hydrate_completed_def
        hydrate_createdAt_def hydrate_tags_def timed_record_def nullish_def example_task_def)

lemma loadTasks_fields [simp]:
  "sortMode (loadTasks P s) = sortMode s"
  by (auto simp: loadTasks_def loadTasks_try_def assign_tasks_def alloc_def
           split: sum.split prod.split option.split json.split stored.split)

lemma init_unnumbered:
  "the_tasks (loadTasks ascii_host (loading_state unnumbered_store)) = unnumbered_tasks"
proof -
  let ?s = "loading_state unnumbered_store"
  have a: "accessible (storage ?s)"
    and b: "item (storage ?s) =
              Some (Encoded (JArr [timed_record ''p'' (JNum (Num 2)),
                                   timed_record ''q'' (JStr (str ''abc'')),
                                   timed_record ''r'' (JNum (Num 1))]))"
    by (simp_all add: unnumbered_store_def)
  have p: "hydrate ascii_host example_env (timed_record ''p'' (JNum (Num 2))) k
             = (Inr (example_task ''p'' False (Num 2) []), k)" for k
    by (rule hydrate_timed_record) (simp_all add: trim_def str_def isWhiteSpace_def)
  have q: "hydrate ascii_host example_env (timed_record ''q'' (JStr (str ''abc''))) k
             = (Inr (example_task ''q'' False NaN []), k)" for k
    by (rule hydrate_timed_record)
       (simp_all add: ascii_host_def trim_def str_def isWhiteSpace_def)
  have r: "hydrate ascii_host example_env (timed_record ''r'' (JNum (Num 1))) k
             = (Inr (example_task ''r'' False (Num 1) []), k)" for k
    by (rule hydrate_timed_record) (simp_all add: trim_def str_def isWhiteSpace_def)
  show ?thesis
    unfolding loadTasks_stored_array [OF a b, of ascii_host]
    by (simp add: p q r unnumbered_tasks_def)
qed

text \<open>
  C2 as the specification states it fails on a collection that \<open>init\<close> loads: from stored
  creation times 2, "abc" and 1, \<open>Number\<close> makes 2, \<open>NaN\<close> and 1. The comparator answers
  \<open>NaN\<close> for each pair of neighbours, which \<open>sort\<close> takes as 0, so the array is left as
  it is and the page shows the task created at 2 before the task created at 1.
\<close>

theorem displayed_order_counterexample:
  "lowercase_keeps_empty ascii_host \<and> collation_consistent ascii_host
   \<and> reachable ascii_host (init ascii_host (loading_state unnumbered_store))
   \<and> sortMode (init ascii_host (loading_state unnumbered_store)) = ByCreatedAt
   \<and> activeTagFilter (init ascii_host (loading_state unnumbered_store)) = None
   \<and> the_tasks (init ascii_host (loading_state unnumbered_store)) = unnumbered_tasks
   \<and> tags_nonempty unnumbered_tasks
   \<and> map createdAt unnumbered_tasks = [Num 2, NaN, Num 1]
   \<and> displayed (init ascii_host (loading_state unnumbered_store)) = unnumbered_tasks
   \<and> \<not> sorted_wrt (ordered_before ascii_host ByCreatedAt)
          (displayed (init ascii_host (loading_state unnumbered_store)))
   \<and> \<not> (\<exists>ys. mset ys = mset unnumbered_tasks
              \<and> sorted_wrt (ordered_before ascii_host ByCreatedAt) ys)"
proof -
  let ?l = "loadTasks ascii_host (loading_state unnumbered_store)"
  let ?s = "init ascii_host (loading_state unnumbered_store)"
  have r: "reachable ascii_host ?s"
    unfolding loading_state_def by (rule reachable.start)
  have al: "tasks ?l < next_addr ?l"
    by (simp add: loadTasks_allocated loading_state_def initial_state_allocated)
  have m0: "sortMode (loading_state unnumbered_store) = ByCreatedAt"
    and f0: "activeTagFilter (loading_state unnumbered_store) = None"
    by (simp_all add: loading_state_def initial_state_def)
  have m: "sortMode ?l = ByCreatedAt" and f: "activeTagFilter ?l = None"
    by (simp_all add: m0 f0)
  have m': "sortMode ?s = ByCreatedAt" and f': "activeTagFilter ?s = None"
    using m f by (simp_all add: init_def renderTasks_def alloc_def Let_def updateTaskCount_def
                     split: prod.split)
  have t: "the_tasks ?s = unnumbered_tasks"
    using al by (simp add: init_def renderTasks_the_tasks init_unnumbered)
  have tg: "tags_nonempty unnumbered_tasks"
    and ca: "map createdAt unnumbered_tasks = [Num 2, NaN, Num 1]"
    by (simp_all add: unnumbered_tasks_def tags_nonempty_def example_task_def)
  have d: "displayed ?s = unnumbered_tasks"
    by (simp add: init_def renderTasks_displayed m0 f0 init_unnumbered)
       (simp add: unnumbered_tasks_def compareTasks_def example_task_def)
  have n: "\<not> sorted_wrt (ordered_before ascii_host ByCreatedAt) (displayed ?s)"
    unfolding d by (simp add: unnumbered_tasks_def ordered_before_def example_task_def)
  have e: "\<not> (\<exists>ys. mset ys = mset unnumbered_tasks
                  \<and> sorted_wrt (ordered_before ascii_host ByCreatedAt) ys)"
  proof
    assume "\<exists>ys. mset ys = mset unnumbered_tasks
                \<and> sorted_wrt (ordered_before ascii_host ByCreatedAt) ys"
    then obtain ys where ys: "mset ys = mset unnumbered_tasks"
      and s: "sorted_wrt (ordered_before ascii_host ByCreatedAt) ys"
      by blast
    have "set ys = set unnumbered_tasks"
      using ys by (rule mset_eq_setD)
    then have q: "example_task ''q'' False NaN [] \<in> set ys"
      by (simp add: unnumbered_tasks_def)
    have "length ys = length unnumbered_tasks"
      using ys by (rule mset_eq_length)
    then have l: "2 \<le> length ys"
      by (simp add: unnumbered_tasks_def)
    have "createdAt (example_task ''q'' False NaN []) = NaN"
      by (simp add: example_task_def)
    with q have "\<not> sorted_wrt (ordered_before ascii_host ByCreatedAt) ys"
      using l by (rule NaN_unordered)
    with s show False by simp
  qed
  from ascii_host_lowercase ascii_host_collation r m' f' t tg ca d n e
  show ?thesis by simp
qed

subsection \<open>What holds in every state the program reaches\<close>

text \<open>
  The hypotheses of the theorems above on the state are invariants of the program: the
  array of \<open>tasks\<close> is allocated, the filter is as \<open>setActiveTagFilter\<close> leaves it, and
  no task has an empty tag. (A creation time can be \<open>NaN\<close> after loading a store that
  holds one that is no number.)
\<close>

lemma addTask_allocated:
  "tasks s < next_addr s \<Longrightarrow> tasks (addTask P a b s) < next_addr (addTask P a b s)"
  by (auto simp: addTask_def Let_def split: prod.split intro!: renderTasks_allocated)

lemma reachable_allocated: "reachable P s \<Longrightarrow> tasks s < next_addr s"
proof (induction rule: reachable.induct)
  case (start st d e)
  then show ?case
    by (simp add: init_def renderTasks_allocated loadTasks_allocated initial_state_allocated)
next
  case (submit s title_text tagsInput)
  from submit.IH show ?case by (rule addTask_allocated)
next
  case (remove s i)
  then show ?case by (simp add: removeTask_def renderTasks_allocated)
next
  case (toggle s i)
  then show ?case by (simp add: toggleTaskCompleted_def renderTasks_allocated)
next
  case (clear s)
  then show ?case by (simp add: clearCompletedTasks_def renderTasks_allocated)
next
  case (tag_click s tagLabel)
  then show ?case by (simp add: setActiveTagFilter_def Let_def renderTasks_allocated)
next
  case (sort_change s m)
  then show ?case by (simp add: renderTasks_allocated)
qed

lemma saveTasks_filter [simp]:
  "activeTagFilter (saveTasks s) = activeTagFilter s"
  "activeTagLabel (saveTasks s) = activeTagLabel s"
  by (simp_all add: saveTasks_def split: prod.split)

lemma assign_tasks_filter [simp]:
  "activeTagFilter (assign_tasks xs s) = activeTagFilter s"
  "activeTagLabel (assign_tasks xs s) = activeTagLabel s"
  by (simp_all add: assign_tasks_def alloc_def)

lemma addTask_filter [simp]:
  "activeTagFilter (addTask P a b s) = activeTagFilter s"
  "activeTagLabel (addTask P a b s) = activeTagLabel s"
  by (simp_all add: addTask_def Let_def split: prod.split)

lemma setActiveTagFilter_filter_set: "filter_set P (setActiveTagFilter P x s)"
  by (cases x) (simp_all add: filter_set_def setActiveTagFilter_def Let_def)

lemma filter_set_cong:
  "activeTagFilter s' = activeTagFilter s \<Longrightarrow> activeTagLabel s' = activeTagLabel s \<Longrightarrow>
     filter_set P s' = filter_set P s"
  by (simp add: filter_set_def split: option.split)

lemma reachable_filter_set: "reachable P s \<Longrightarrow> filter_set P s"
proof (induction rule: reachable.induct)
  case (start st d e)
  then show ?case by (simp add: filter_set_def init_def initial_state_def)
next
  case (submit s title_text tagsInput)
  then show ?case
    by (subst filter_set_cong [where s = s]) simp_all
next
  case (remove s i)
  then show ?case
    unfolding removeTask_def by (subst filter_set_cong [where s = s]) simp_all
next
  case (toggle s i)
  then show ?case
    unfolding toggleTaskCompleted_def by (subst filter_set_cong [where s = s]) simp_all
next
  case (clear s)
  then show ?case
    unfolding clearCompletedTasks_def by (subst filter_set_cong [where s = s]) simp_all
next
  case (tag_click s tagLabel)
  then show ?case by (simp add: setActiveTagFilter_filter_set)
next
  case (sort_change s m)
  then show ?case
    by (subst filter_set_cong [where s = s]) simp_all
qed

lemma hydrate_tags_nonempty:
  "hydrate P e r k = (Inr t, k') \<Longrightarrow> list_all (\<lambda>g. g \<noteq> []) (tags t)"
  by (auto simp: hydrate_def hydrate_tags_def list_all_iff
           split: prod.splits sum.splits option.splits json.splits)

lemma hydrate_all_tags_nonempty:
  "hydrate_all P e rs k = (Inr ts, k') \<Longrightarrow> tags_nonempty ts"
proof (induction rs arbitrary: k ts)
  case Nil
  then show ?case by (simp add: tags_nonempty_def)
next
  case (Cons r rs)
  from Cons.prems obtain x k1 xs where x: "hydrate P e r k = (Inr x, k1)"
    and xs: "hydrate_all P e rs k1 = (Inr xs, k')" and ts: "ts = x # xs"
    by (auto split: prod.splits sum.splits)
  show ?case
    using hydrate_tags_nonempty [OF x] Cons.IH [OF xs] ts by (simp add: tags_nonempty_def)
qed

lemma loadTasks_tags_nonempty:
  assumes old: "tags_nonempty (the_tasks s)"
  shows "tags_nonempty (the_tasks (loadTasks P s))"
proof (cases "accessible (storage s)")
  case False
  then show ?thesis by (simp add: loadTasks_denied tags_nonempty_def)
next
  case True
  show ?thesis
  proof (cases "item (storage s)")
    case None
    then show ?thesis using old True by (simp add: loadTasks_unchanged)
  next
    case (Some raw)
    show ?thesis
    proof (cases raw)
      case EmptyString
      then show ?thesis using old True Some by (simp add: loadTasks_unchanged)
    next
      case Malformed
      then show ?thesis using Some by (simp add: loadTasks_corrupt tags_nonempty_def)
    next
      case (Encoded v)
      show ?thesis
      proof (cases "decodes_to_sequence (Encoded v)")
        case False
        then show ?thesis using old True Some Encoded by (simp add: loadTasks_unchanged)
      next
        case seq: True
        then obtain rs where rs: "v = JArr rs"
          by (cases v) (simp_all add: decodes_to_sequence_def)
        have it: "item (storage s) = Some (Encoded (JArr rs))"
          using Some Encoded rs by simp
        show ?thesis
        proof (cases "hydrate_all P (env s) rs (tick s)")
          case (Pair res k')
          then show ?thesis
            using loadTasks_stored_array [OF True it, of P]
                  hydrate_all_tags_nonempty [of P "env s" rs "tick s"]
            by (cases res) (simp_all add: tags_nonempty_def)
        qed
      qed
    qed
  qed
qed

lemma parseTags_nonempty: "list_all (\<lambda>g. g \<noteq> []) (parseTags input)"
  by (simp add: parseTags_def list_all_iff)

lemma reachable_tags_nonempty: "reachable P s \<Longrightarrow> tags_nonempty (the_tasks s)"
proof (induction rule: reachable.induct)
  case (start st d e)
  have "tags_nonempty (the_tasks (initial_state st d e))"
    by (simp add: initial_state_def the_tasks_def tags_nonempty_def)
  then have "tags_nonempty (the_tasks (loadTasks P (initial_state st d e)))"
    by (rule loadTasks_tags_nonempty)
  then show ?case
    by (simp add: init_def renderTasks_the_tasks loadTasks_allocated initial_state_allocated)
next
  case (submit s title_text tagsInput)
  have al: "tasks s < next_addr s" using submit.hyps by (rule reachable_allocated)
  show ?case
  proof (cases "trim title_text = []")
    case True
    then show ?thesis using submit.IH by (simp add: addTask_def)
  next
    case False
    show ?thesis
      using submit.IH parseTags_nonempty [of tagsInput]
      by (simp add: addTask_the_tasks [OF False al] tags_nonempty_def)
  qed
next
  case (remove s i)
  then show ?case
    by (auto simp: removeTask_def renderTasks_the_tasks tags_nonempty_def list_all_iff)
next
  case (toggle s i)
  then show ?case
    by (fastforce simp: toggle_the_tasks tags_nonempty_def list_all_iff)
next
  case (clear s)
  then show ?case
    by (auto simp: clearCompletedTasks_def renderTasks_the_tasks tags_nonempty_def list_all_iff)
next
  case (tag_click s tagLabel)
  then show ?case
    by (simp add: setActiveTagFilter_the_tasks reachable_allocated)
next
  case (sort_change s m)
  have "tasks (s\<lparr>sortMode := m\<rparr>) < next_addr (s\<lparr>sortMode := m\<rparr>)"
    using reachable_allocated [OF sort_change.hyps] by simp
  then have "the_tasks (renderTasks P (s\<lparr>sortMode := m\<rparr>)) = the_tasks (s\<lparr>sortMode := m\<rparr>)"
    by (rule renderTasks_the_tasks)
  moreover have "the_tasks (s\<lparr>sortMode := m\<rparr>) = the_tasks s"
    by (simp add: the_tasks_def)
  ultimately show ?case
    using sort_change.IH by simp
qed

text \<open>
  So, in every state the program reaches: rendering leaves the collection alone, a submitted
  title that is not blank appends its task, and an active filter is the lower-case form of
  its non-empty label.
\<close>

lemma reachable_render:
  "reachable P s \<Longrightarrow> the_tasks (renderTasks P s) = the_tasks s"
  by (simp add: renderTasks_the_tasks reachable_allocated)

lemma reachable_submit:
  "reachable P s \<Longrightarrow> trim title_text \<noteq> [] \<Longrightarrow>
     the_tasks (addTask P title_text tagsInput s) =
       the_tasks s @
       [\<lparr>id_t = fst (new_id P (env s) (tick s)), title = trim title_text, completed = False,
         createdAt = Num (of_int (Date_now (env s) (snd (new_id P (env s) (tick s))))),
         tags = parseTags tagsInput\<rparr>]"
  by (simp add: addTask_the_tasks reachable_allocated)

lemma reachable_filter:
  "reachable P s \<Longrightarrow> activeTagFilter s = Some f \<Longrightarrow>
     f = toLowerCase P (activeTagLabel s) \<and> activeTagLabel s \<noteq> []"
  using reachable_filter_set [of P s] by (simp add: filter_set_def)

end
